theory Spec2Isabelle
  imports Main
begin

section \<open>Data model\<close>

text \<open>
  The graph container of \<^verbatim>\<open>src/lib/data/graph/Graph.cpp\<close>. The class owns two vectors
  of shared pointers, \<^verbatim>\<open>m_nodes\<close> and \<^verbatim>\<open>m_edges\<close>; every other reference (the
  parameters of the methods, the endpoints of an edge, the entries of a node's incidence
  index) is a raw pointer. Objects therefore live in an explicit store, a map from
  addresses to objects, and a pointer is an address. Reading through an address that holds
  no object is undefined behaviour in C++; here it is the result \<open>Inl DanglingPointer\<close>.
\<close>

type_synonym Id = nat
type_synonym ptr = nat

text \<open>
  The enumerators of \<^verbatim>\<open>Node::NodeType\<close> and \<^verbatim>\<open>Edge::EdgeType\<close> are declared in headers
  that are not part of the sources. \<^verbatim>\<open>Graph.cpp\<close> names \<^verbatim>\<open>NODE_UNDEFINED\<close> and
  \<^verbatim>\<open>EDGE_MEMBER\<close> only; every other enumerator is kept as a numbered tag.
\<close>

datatype NodeType = NODE_UNDEFINED | NODE_DEFINED nat

datatype EdgeType = EDGE_MEMBER | EDGE_OTHER nat

text \<open>
  A node as \<^verbatim>\<open>Graph.cpp\<close> reads it: \<^verbatim>\<open>getId\<close>, \<^verbatim>\<open>getType\<close>, \<^verbatim>\<open>getName\<close>,
  \<^verbatim>\<open>getEdges\<close> (the incidence index, raw edge pointers) and
  \<^verbatim>\<open>getComponent<TokenComponentSignature>\<close> (a null pointer when no signature is attached).
\<close>

record Node =
  node_id :: Id
  node_type :: NodeType
  node_name :: string
  node_edges :: "ptr list"
  node_signature :: "string option"

record Edge =
  edge_id :: Id
  edge_type :: EdgeType
  edge_from :: ptr
  edge_to :: ptr

datatype fault = NullPointer | DanglingPointer | InvalidIterator

datatype severity = WARNING | ERROR

text \<open>
  The state the methods of \<^verbatim>\<open>Graph\<close> run in: the two member vectors, the object store,
  the allocator's next address, the next token id and the messages logged so far.
\<close>

record Graph =
  m_nodes :: "ptr list"
  m_edges :: "ptr list"
  heap_nodes :: "ptr \<Rightarrow> Node option"
  heap_edges :: "ptr \<Rightarrow> Edge option"
  next_ptr :: ptr
  next_id :: Id
  logged :: "(severity \<times> string) list"

datatype Token = TokenNode ptr | TokenEdge ptr

text \<open>\<^verbatim>\<open>Graph::Graph()\<close> in a program that has allocated nothing yet.\<close>

definition Graph_init :: Graph where
  "Graph_init = \<lparr> m_nodes = [], m_edges = [], heap_nodes = (\<lambda>p. None),
     heap_edges = (\<lambda>p. None), next_ptr = 0, next_id = 0, logged = [] \<rparr>"

definition LOG_WARNING :: "string \<Rightarrow> Graph \<Rightarrow> Graph" where
  "LOG_WARNING msg g = g\<lparr> logged := logged g @ [(WARNING, msg)] \<rparr>"

definition LOG_ERROR :: "string \<Rightarrow> Graph \<Rightarrow> Graph" where
  "LOG_ERROR msg g = g\<lparr> logged := logged g @ [(ERROR, msg)] \<rparr>"

section \<open>Collaborators of the graph\<close>

text \<open>
  Modelled from the spec: \<^verbatim>\<open>utility::split\<close> (utilityString.h is not part of the
  sources). Section 4.2 step 1: the full name is split into its ordered segments on the
  delimiter. A name without the delimiter is one segment.
\<close>

function split_from :: "string \<Rightarrow> string \<Rightarrow> string \<Rightarrow> string list" where
  "split_from delimiter acc [] = [acc]"
| "split_from delimiter acc (c # cs) =
     (if delimiter \<noteq> [] \<and> take (length delimiter) (c # cs) = delimiter
      then acc # split_from delimiter [] (drop (length delimiter) (c # cs))
      else split_from delimiter (acc @ [c]) cs)"
  by pat_completeness auto
termination
  by (relation "measure (\<lambda>(d, acc, s). length s)") auto

definition utility_split :: "string \<Rightarrow> string \<Rightarrow> string list" where
  "utility_split str delimiter = split_from delimiter [] str"

text \<open>
  Modelled from the spec: the constructor of \<^verbatim>\<open>Token\<close> (not part of the sources).
  Section 3: an id is unique and assigned at creation. Ids are drawn from a counter.
\<close>

definition Token_newId :: "Graph \<Rightarrow> Graph \<times> Id" where
  "Token_newId g = (g\<lparr> next_id := next_id g + 1 \<rparr>, next_id g)"

text \<open>
  \<^verbatim>\<open>std::find_if\<close> over a vector of pointers, with a predicate that reads the object
  behind each pointer.
\<close>

fun find_if :: "(ptr \<Rightarrow> 'a option) \<Rightarrow> ('a \<Rightarrow> bool) \<Rightarrow> ptr list \<Rightarrow> fault + ptr option" where
  "find_if h func [] = Inr None"
| "find_if h func (p # ps) =
     (case h p of
        None \<Rightarrow> Inl DanglingPointer
      | Some x \<Rightarrow> if func x then Inr (Some p) else find_if h func ps)"

text \<open>
  Modelled from the spec: the methods of \<^verbatim>\<open>Node\<close> and \<^verbatim>\<open>Edge\<close> that \<^verbatim>\<open>Graph.cpp\<close>
  calls (Node.cpp and Edge.cpp are not part of the sources).

  \<^item> Section 2 and 4.4 step 3: a node holds an index of the edges incident to it, in either
    direction. Constructing an edge enters it in the index of both endpoints.
  \<^item> Section 4.4, \<^verbatim>\<open>removeEdge\<close>: the node/edge integration keeps the index consistent with
    a removal. Destroying an edge takes it out of the index of both endpoints.
  \<^item> Section 4.1: the lookup by (type, from, to) scans the index of \<^verbatim>\<open>from\<close>.
  \<^item> Section 3: the parent of a node is the source of a membership edge that enters it.
  \<^item> Section 4.4 step 2: the iteration over a node's edges visits a snapshot of the index.
\<close>

definition Node_addEdge :: "Graph \<Rightarrow> ptr \<Rightarrow> ptr \<Rightarrow> fault + Graph" where
  "Node_addEdge g node e =
     (case heap_nodes g node of
        None \<Rightarrow> Inl DanglingPointer
      | Some n \<Rightarrow> Inr (g\<lparr> heap_nodes := (heap_nodes g)(node \<mapsto> n\<lparr> node_edges := node_edges n @ [e] \<rparr>) \<rparr>))"

definition Node_removeEdge :: "Graph \<Rightarrow> ptr \<Rightarrow> ptr \<Rightarrow> fault + Graph" where
  "Node_removeEdge g node e =
     (case heap_nodes g node of
        None \<Rightarrow> Inl DanglingPointer
      | Some n \<Rightarrow> Inr (g\<lparr> heap_nodes := (heap_nodes g)(node \<mapsto> n\<lparr> node_edges := removeAll e (node_edges n) \<rparr>) \<rparr>))"

definition Node_setType :: "Graph \<Rightarrow> ptr \<Rightarrow> NodeType \<Rightarrow> fault + Graph" where
  "Node_setType g node type =
     (case heap_nodes g node of
        None \<Rightarrow> Inl DanglingPointer
      | Some n \<Rightarrow> Inr (g\<lparr> heap_nodes := (heap_nodes g)(node \<mapsto> n\<lparr> node_type := type \<rparr>) \<rparr>))"

definition Node_addComponentSignature :: "Graph \<Rightarrow> ptr \<Rightarrow> string \<Rightarrow> fault + Graph" where
  "Node_addComponentSignature g node signature =
     (case heap_nodes g node of
        None \<Rightarrow> Inl DanglingPointer
      | Some n \<Rightarrow> Inr (g\<lparr> heap_nodes := (heap_nodes g)(node \<mapsto> n\<lparr> node_signature := Some signature \<rparr>) \<rparr>))"

definition Node_findEdgeOfType ::
  "Graph \<Rightarrow> ptr \<Rightarrow> EdgeType \<Rightarrow> (Edge \<Rightarrow> bool) \<Rightarrow> fault + ptr option" where
  "Node_findEdgeOfType g node type func =
     (case heap_nodes g node of
        None \<Rightarrow> Inl DanglingPointer
      | Some n \<Rightarrow> find_if (heap_edges g) (\<lambda>e. edge_type e = type \<and> func e) (node_edges n))"

definition Node_getParentNode :: "Graph \<Rightarrow> ptr \<Rightarrow> fault + ptr option" where
  "Node_getParentNode g node =
     (case Node_findEdgeOfType g node EDGE_MEMBER (\<lambda>e. edge_to e = node) of
        Inl f \<Rightarrow> Inl f
      | Inr None \<Rightarrow> Inr None
      | Inr (Some e) \<Rightarrow>
          (case heap_edges g e of
             None \<Rightarrow> Inl DanglingPointer
           | Some x \<Rightarrow> Inr (Some (edge_from x))))"

text \<open>
  Modelled from the spec: \<^verbatim>\<open>Node::forEachEdgeOfType\<close> (Node.cpp is not part of the
  sources). Section 4.4 step 2: the snapshot the iteration runs over, the index entries of
  one type.
\<close>

fun edgesOfType :: "(ptr \<Rightarrow> Edge option) \<Rightarrow> EdgeType \<Rightarrow> ptr list \<Rightarrow> fault + ptr list" where
  "edgesOfType h type [] = Inr []"
| "edgesOfType h type (e # es) =
     (case h e of
        None \<Rightarrow> Inl DanglingPointer
      | Some x \<Rightarrow>
          (case edgesOfType h type es of
             Inl f \<Rightarrow> Inl f
           | Inr r \<Rightarrow> Inr (if edge_type x = type then e # r else r)))"

text \<open>
  Modelled from the spec: the loop of \<^verbatim>\<open>Node::forEachEdge\<close> and
  \<^verbatim>\<open>Node::forEachEdgeOfType\<close> (Node.cpp is not part of the sources). Section 4.4 steps 2
  and 3: the snapshot is visited in order, each visit running in the state the previous
  one left. A visit that does not return (\<open>None\<close>) or faults ends the iteration.
\<close>

fun forEach ::
  "(ptr \<Rightarrow> Graph \<Rightarrow> (fault + Graph) option) \<Rightarrow> ptr list \<Rightarrow> Graph \<Rightarrow> (fault + Graph) option" where
  "forEach func [] g = Some (Inr g)"
| "forEach func (e # es) g =
     (case func e g of
        None \<Rightarrow> None
      | Some (Inl f) \<Rightarrow> Some (Inl f)
      | Some (Inr g') \<Rightarrow> forEach func es g')"

text \<open>
  Modelled from the spec: the constructors of \<^verbatim>\<open>Node\<close> (Node.cpp is not part of the
  sources), sections 3 and 4.5.
  \<^verbatim>\<open>std::make_shared<Node>(...)\<close>: a new object at the allocator's next address, with an
  empty incidence index. The two-argument constructor draws a new id and attaches no
  component; the copy constructor keeps the id and the attributes of its source.
\<close>

definition Node_alloc :: "Graph \<Rightarrow> Node \<Rightarrow> Graph \<times> ptr" where
  "Node_alloc g n =
     (g\<lparr> heap_nodes := (heap_nodes g)(next_ptr g \<mapsto> n), next_ptr := next_ptr g + 1 \<rparr>, next_ptr g)"

definition Node_new :: "Graph \<Rightarrow> NodeType \<Rightarrow> string \<Rightarrow> Graph \<times> ptr" where
  "Node_new g type name =
     (case Token_newId g of
        (g1, i) \<Rightarrow> Node_alloc g1 \<lparr> node_id = i, node_type = type, node_name = name,
                                  node_edges = [], node_signature = None \<rparr>)"

definition Node_copy :: "Graph \<Rightarrow> Node \<Rightarrow> Graph \<times> ptr" where
  "Node_copy g other = Node_alloc g (other\<lparr> node_edges := [] \<rparr>)"

text \<open>
  Modelled from the spec: the constructors of \<^verbatim>\<open>Edge\<close> (Edge.cpp is not part of the
  sources), sections 3, 4.3 and 4.5.
  \<^verbatim>\<open>std::make_shared<Edge>(...)\<close>: a new object at the allocator's next address, entered
  in the index of \<^verbatim>\<open>from\<close> and then of \<^verbatim>\<open>to\<close>.
\<close>

definition Edge_alloc :: "Graph \<Rightarrow> Edge \<Rightarrow> fault + Graph \<times> ptr" where
  "Edge_alloc g e =
     (let p = next_ptr g;
          g1 = g\<lparr> heap_edges := (heap_edges g)(p \<mapsto> e), next_ptr := p + 1 \<rparr>
      in case Node_addEdge g1 (edge_from e) p of
           Inl f \<Rightarrow> Inl f
         | Inr g2 \<Rightarrow>
             (case Node_addEdge g2 (edge_to e) p of
                Inl f \<Rightarrow> Inl f
              | Inr g3 \<Rightarrow> Inr (g3, p)))"

definition Edge_new :: "Graph \<Rightarrow> EdgeType \<Rightarrow> ptr \<Rightarrow> ptr \<Rightarrow> fault + Graph \<times> ptr" where
  "Edge_new g type from to =
     (case Token_newId g of
        (g1, i) \<Rightarrow> Edge_alloc g1 \<lparr> edge_id = i, edge_type = type, edge_from = from, edge_to = to \<rparr>)"

definition Edge_copy :: "Graph \<Rightarrow> Edge \<Rightarrow> ptr \<Rightarrow> ptr \<Rightarrow> fault + Graph \<times> ptr" where
  "Edge_copy g other from to = Edge_alloc g (other\<lparr> edge_from := from, edge_to := to \<rparr>)"

text \<open>
  Modelled from the spec: the destructors of \<^verbatim>\<open>Edge\<close> and \<^verbatim>\<open>Node\<close> (Edge.cpp and
  Node.cpp are not part of the sources), section 4.4. The last shared pointer to an edge
  goes away: the destructor takes the edge out of the index of both endpoints, and the
  object is gone. A node that is destroyed is gone; its index is left as it is.
\<close>

definition Edge_delete :: "Graph \<Rightarrow> ptr \<Rightarrow> fault + Graph" where
  "Edge_delete g e =
     (case heap_edges g e of
        None \<Rightarrow> Inl DanglingPointer
      | Some x \<Rightarrow>
          (case Node_removeEdge g (edge_from x) e of
             Inl f \<Rightarrow> Inl f
           | Inr g1 \<Rightarrow>
               (case Node_removeEdge g1 (edge_to x) e of
                  Inl f \<Rightarrow> Inl f
                | Inr g2 \<Rightarrow> Inr (g2\<lparr> heap_edges := (heap_edges g2)(e := None) \<rparr>))))"

definition Node_delete :: "Graph \<Rightarrow> ptr \<Rightarrow> Graph" where
  "Node_delete g node = g\<lparr> heap_nodes := (heap_nodes g)(node := None) \<rparr>"

section \<open>Graph.cpp\<close>

definition DELIMITER :: string where
  "DELIMITER = ''::''"

subsection \<open>Lookup (lines 17-65 and 194-243)\<close>

definition findNode :: "Graph \<Rightarrow> (Node \<Rightarrow> bool) \<Rightarrow> fault + ptr option" where
  "findNode g func = find_if (heap_nodes g) func (m_nodes g)"

definition findEdge :: "Graph \<Rightarrow> (Edge \<Rightarrow> bool) \<Rightarrow> fault + ptr option" where
  "findEdge g func = find_if (heap_edges g) func (m_edges g)"

text \<open>The predicate of \<^verbatim>\<open>findToken\<close> sees a \<^verbatim>\<open>Token\<close>, that is the id.\<close>

definition findToken :: "Graph \<Rightarrow> (Id \<Rightarrow> bool) \<Rightarrow> fault + Token option" where
  "findToken g func =
     (case findNode g (\<lambda>n. func (node_id n)) of
        Inl f \<Rightarrow> Inl f
      | Inr (Some node) \<Rightarrow> Inr (Some (TokenNode node))
      | Inr None \<Rightarrow>
          (case findEdge g (\<lambda>e. func (edge_id e)) of
             Inl f \<Rightarrow> Inl f
           | Inr (Some edge) \<Rightarrow> Inr (Some (TokenEdge edge))
           | Inr None \<Rightarrow> Inr None))"

definition getNode :: "Graph \<Rightarrow> string \<Rightarrow> fault + ptr option" where
  "getNode g fullName = findNode g (\<lambda>n. node_name n = fullName)"

definition getEdge :: "Graph \<Rightarrow> EdgeType \<Rightarrow> ptr \<Rightarrow> ptr \<Rightarrow> fault + ptr option" where
  "getEdge g type from to = Node_findEdgeOfType g from type (\<lambda>e. edge_to e = to)"

definition getNodeById :: "Graph \<Rightarrow> Id \<Rightarrow> fault + ptr option" where
  "getNodeById g i = findNode g (\<lambda>n. node_id n = i)"

definition getEdgeById :: "Graph \<Rightarrow> Id \<Rightarrow> fault + ptr option" where
  "getEdgeById g i = findEdge g (\<lambda>e. edge_id e = i)"

definition getTokenById :: "Graph \<Rightarrow> Id \<Rightarrow> fault + Token option" where
  "getTokenById g i = findToken g (\<lambda>t. t = i)"

subsection \<open>Creation (lines 67-127 and 314-368)\<close>

definition insertEdge :: "Graph \<Rightarrow> EdgeType \<Rightarrow> ptr \<Rightarrow> ptr \<Rightarrow> fault + Graph \<times> ptr" where
  "insertEdge g type from to =
     (case Edge_new g type from to of
        Inl f \<Rightarrow> Inl f
      | Inr (g1, edgePtr) \<Rightarrow> Inr (g1\<lparr> m_edges := m_edges g1 @ [edgePtr] \<rparr>, edgePtr))"

definition createEdge :: "Graph \<Rightarrow> EdgeType \<Rightarrow> ptr \<Rightarrow> ptr \<Rightarrow> fault + Graph \<times> ptr" where
  "createEdge g type from to =
     (case getEdge g type from to of
        Inl f \<Rightarrow> Inl f
      | Inr (Some edge) \<Rightarrow> Inr (g, edge)
      | Inr None \<Rightarrow> insertEdge g type from to)"

definition insertNode :: "Graph \<Rightarrow> NodeType \<Rightarrow> string \<Rightarrow> ptr option \<Rightarrow> fault + Graph \<times> ptr" where
  "insertNode g type fullName parentNode =
     (case Node_new g type fullName of
        (g1, nodePtr) \<Rightarrow>
          (let g2 = g1\<lparr> m_nodes := m_nodes g1 @ [nodePtr] \<rparr>
           in case parentNode of
                None \<Rightarrow> Inr (g2, nodePtr)
              | Some parent \<Rightarrow>
                  (case createEdge g2 EDGE_MEMBER parent nodePtr of
                     Inl f \<Rightarrow> Inl f
                   | Inr (g3, edge) \<Rightarrow> Inr (g3, nodePtr))))"

text \<open>
  The loop of \<^verbatim>\<open>insertNodeHierarchy\<close> (lines 320-343) from index \<open>i\<close> on, with the
  values of the locals \<^verbatim>\<open>node\<close> and \<^verbatim>\<open>name\<close> on entry.
\<close>

function insertNodeHierarchy_loop ::
  "NodeType \<Rightarrow> string list \<Rightarrow> nat \<Rightarrow> ptr option \<Rightarrow> string \<Rightarrow> Graph \<Rightarrow> fault + Graph \<times> ptr option" where
  "insertNodeHierarchy_loop type names i node name g =
     (if i < length names then
        (let name1 = (if i > 0 then name @ DELIMITER else name);
             name2 = name1 @ names ! i
         in case getNode g name2 of
              Inl f \<Rightarrow> Inl f
            | Inr (Some childNode) \<Rightarrow>
                insertNodeHierarchy_loop type names (Suc i) (Some childNode) name2 g
            | Inr None \<Rightarrow>
                (case insertNode g (if i = length names - 1 then type else NODE_UNDEFINED) name2 node of
                   Inl f \<Rightarrow> Inl f
                 | Inr (g1, childNode) \<Rightarrow>
                     insertNodeHierarchy_loop type names (Suc i) (Some childNode) name2 g1))
      else Inr (g, node))"
  by pat_completeness auto
termination
  by (relation "measure (\<lambda>(type, names, i, node, name, g). length names - i)") auto

declare insertNodeHierarchy_loop.simps [simp del]

definition insertNodeHierarchy :: "Graph \<Rightarrow> NodeType \<Rightarrow> string \<Rightarrow> fault + Graph \<times> ptr option" where
  "insertNodeHierarchy g type fullName =
     insertNodeHierarchy_loop type (utility_split fullName DELIMITER) 0 None [] g"

definition createNodeHierarchy :: "Graph \<Rightarrow> NodeType \<Rightarrow> string \<Rightarrow> fault + Graph \<times> ptr option" where
  "createNodeHierarchy g type fullName =
     (case getNode g fullName of
        Inl f \<Rightarrow> Inl f
      | Inr (Some node) \<Rightarrow>
          (if type \<noteq> NODE_UNDEFINED
           then (case Node_setType g node type of
                   Inl f \<Rightarrow> Inl f
                 | Inr g1 \<Rightarrow> Inr (g1, Some node))
           else Inr (g, Some node))
      | Inr None \<Rightarrow> insertNodeHierarchy g type fullName)"

definition createNodeHierarchyWithDistinctSignature ::
  "Graph \<Rightarrow> NodeType \<Rightarrow> string \<Rightarrow> string \<Rightarrow> fault + Graph \<times> ptr option" where
  "createNodeHierarchyWithDistinctSignature g type fullName signature =
     (case getNode g fullName of
        Inl f \<Rightarrow> Inl f
      | Inr (Some node) \<Rightarrow>
          (case heap_nodes g node of
             None \<Rightarrow> Inl DanglingPointer
           | Some n \<Rightarrow>
               (case node_signature n of
                  None \<Rightarrow> Inl NullPointer
                | Some s \<Rightarrow>
                    if s = signature then
                      (if type \<noteq> NODE_UNDEFINED
                       then (case Node_setType g node type of
                               Inl f \<Rightarrow> Inl f
                             | Inr g1 \<Rightarrow> Inr (g1, Some node))
                       else Inr (g, Some node))
                    else
                      (case Node_getParentNode g node of
                         Inl f \<Rightarrow> Inl f
                       | Inr parent \<Rightarrow>
                           (case insertNode g type fullName parent of
                              Inl f \<Rightarrow> Inl f
                            | Inr (g1, node1) \<Rightarrow>
                                (case Node_addComponentSignature g1 node1 signature of
                                   Inl f \<Rightarrow> Inl f
                                 | Inr g2 \<Rightarrow> Inr (g2, Some node1))))))
      | Inr None \<Rightarrow>
          (case insertNodeHierarchy g type fullName of
             Inl f \<Rightarrow> Inl f
           | Inr (g1, None) \<Rightarrow> Inl NullPointer
           | Inr (g1, Some node1) \<Rightarrow>
               (case Node_addComponentSignature g1 node1 signature of
                  Inl f \<Rightarrow> Inl f
                | Inr g2 \<Rightarrow> Inr (g2, Some node1))))"

subsection \<open>Removal (lines 129-192 and 370-381)\<close>

text \<open>The search loops of the removal methods: the position of a pointer in a vector.\<close>

fun position :: "ptr list \<Rightarrow> ptr \<Rightarrow> nat option" where
  "position [] p = None"
| "position (x # xs) p = (if x = p then Some 0 else map_option Suc (position xs p))"

definition erase :: "ptr list \<Rightarrow> nat \<Rightarrow> ptr list" where
  "erase xs i = take i xs @ drop (Suc i) xs"

definition removeEdgeInternal :: "Graph \<Rightarrow> ptr \<Rightarrow> fault + Graph" where
  "removeEdgeInternal g edge =
     (case position (m_edges g) edge of
        None \<Rightarrow> Inr g
      | Some it \<Rightarrow> Edge_delete (g\<lparr> m_edges := erase (m_edges g) it \<rparr>) edge)"

text \<open>
  \<^verbatim>\<open>removeEdge\<close> (lines 169-192). When the search ends at \<^verbatim>\<open>m_edges.end()\<close> the warning
  is logged and the method goes on; erasing at the end iterator is undefined behaviour.
\<close>

definition removeEdge :: "Graph \<Rightarrow> ptr \<Rightarrow> fault + Graph" where
  "removeEdge g edge =
     (let it = position (m_edges g) edge;
          g1 = (if it = None then LOG_WARNING ''Edge was not found in the graph.'' g else g)
      in case heap_edges g1 edge of
           None \<Rightarrow> Inl DanglingPointer
         | Some e \<Rightarrow>
             if edge_type e = EDGE_MEMBER
             then Inr (LOG_ERROR ''Can't remove member edge, without removing the child node.'' g1)
             else (case it of
                     None \<Rightarrow> Inl InvalidIterator
                   | Some i \<Rightarrow> Edge_delete (g1\<lparr> m_edges := erase (m_edges g1) i \<rparr>) edge))"

text \<open>
  The last steps of \<^verbatim>\<open>removeNode\<close> (lines 161-166): the check of the node's index and
  \<^verbatim>\<open>m_nodes.erase(it)\<close>. The iterator \<open>it\<close> was found before the children were removed;
  an erase at or before its position has invalidated it, and it then no longer designates
  the node.
\<close>

definition removeNode_finish :: "Graph \<Rightarrow> ptr \<Rightarrow> nat \<Rightarrow> fault + Graph" where
  "removeNode_finish g node it =
     (case heap_nodes g node of
        None \<Rightarrow> Inl DanglingPointer
      | Some n \<Rightarrow>
          (let g1 = (if node_edges n \<noteq> [] then LOG_ERROR ''Node has still edges.'' g else g)
           in if it < length (m_nodes g1) \<and> m_nodes g1 ! it = node
              then Inr (Node_delete (g1\<lparr> m_nodes := erase (m_nodes g1) it \<rparr>) node)
              else Inl InvalidIterator))"

text \<open>
  \<^verbatim>\<open>removeNode\<close> (lines 129-167). The method calls itself for every child, and a cycle
  of membership edges makes it call itself without end; the first argument bounds the
  depth of the calls, and \<open>None\<close> is a run that needs a deeper one.
\<close>

fun removeNode :: "nat \<Rightarrow> Graph \<Rightarrow> ptr \<Rightarrow> (fault + Graph) option" where
  "removeNode 0 g node = None"
| "removeNode (Suc k) g node =
     (case position (m_nodes g) node of
        None \<Rightarrow> Some (Inr (LOG_WARNING ''Node was not found in the graph.'' g))
      | Some it \<Rightarrow>
          (case heap_nodes g node of
             None \<Rightarrow> Some (Inl DanglingPointer)
           | Some n \<Rightarrow>
               (case edgesOfType (heap_edges g) EDGE_MEMBER (node_edges n) of
                  Inl f \<Rightarrow> Some (Inl f)
                | Inr members \<Rightarrow>
                    (case forEach
                            (\<lambda>e g1. case heap_edges g1 e of
                                       None \<Rightarrow> Some (Inl DanglingPointer)
                                     | Some x \<Rightarrow>
                                         if node = edge_from x then removeNode k g1 (edge_to x)
                                         else Some (Inr g1))
                            members g of
                       None \<Rightarrow> None
                     | Some (Inl f) \<Rightarrow> Some (Inl f)
                     | Some (Inr g2) \<Rightarrow>
                         (case heap_nodes g2 node of
                            None \<Rightarrow> Some (Inl DanglingPointer)
                          | Some n2 \<Rightarrow>
                              (case forEach (\<lambda>e g3. Some (removeEdgeInternal g3 e)) (node_edges n2) g2 of
                                 None \<Rightarrow> None
                               | Some (Inl f) \<Rightarrow> Some (Inl f)
                               | Some (Inr g4) \<Rightarrow> Some (removeNode_finish g4 node it)))))))"

subsection \<open>Plain copies (lines 283-310)\<close>

definition addNodeAsPlainCopy :: "Graph \<Rightarrow> ptr \<Rightarrow> fault + Graph \<times> ptr" where
  "addNodeAsPlainCopy g node =
     (case heap_nodes g node of
        None \<Rightarrow> Inl DanglingPointer
      | Some other \<Rightarrow>
          (case getNodeById g (node_id other) of
             Inl f \<Rightarrow> Inl f
           | Inr (Some n) \<Rightarrow> Inr (g, n)
           | Inr None \<Rightarrow>
               (case Node_copy g other of
                  (g1, copy) \<Rightarrow> Inr (g1\<lparr> m_nodes := m_nodes g1 @ [copy] \<rparr>, copy))))"

definition addEdgeAsPlainCopy :: "Graph \<Rightarrow> ptr \<Rightarrow> fault + Graph \<times> ptr" where
  "addEdgeAsPlainCopy g edge =
     (case heap_edges g edge of
        None \<Rightarrow> Inl DanglingPointer
      | Some other \<Rightarrow>
          (case getEdgeById g (edge_id other) of
             Inl f \<Rightarrow> Inl f
           | Inr (Some e) \<Rightarrow> Inr (g, e)
           | Inr None \<Rightarrow>
               (case addNodeAsPlainCopy g (edge_from other) of
                  Inl f \<Rightarrow> Inl f
                | Inr (g1, from) \<Rightarrow>
                    (case addNodeAsPlainCopy g1 (edge_to other) of
                       Inl f \<Rightarrow> Inl f
                     | Inr (g2, to) \<Rightarrow>
                         (case Edge_copy g2 other from to of
                            Inl f \<Rightarrow> Inl f
                          | Inr (g3, copy) \<Rightarrow> Inr (g3\<lparr> m_edges := m_edges g3 @ [copy] \<rparr>, copy))))))"

section \<open>Well-formed states and example graphs\<close>

text \<open>
  The two vectors hold shared pointers: as long as a pointer is an element, its object is
  alive.
\<close>

definition owned :: "Graph \<Rightarrow> bool" where
  "owned g = ((\<forall>p\<in>set (m_nodes g). heap_nodes g p \<noteq> None)
            \<and> (\<forall>e\<in>set (m_edges g). heap_edges g e \<noteq> None))"

text \<open>The allocator hands out addresses that hold no object.\<close>

definition fresh :: "Graph \<Rightarrow> bool" where
  "fresh g = (\<forall>p. next_ptr g \<le> p \<longrightarrow> heap_nodes g p = None \<and> heap_edges g p = None)"

text \<open>The graph that \<^verbatim>\<open>createNodeHierarchy(type, "a::b::c")\<close> builds from the empty one.\<close>

definition graph_abc :: "NodeType \<Rightarrow> Graph" where
  "graph_abc type = \<lparr> m_nodes = [0, 1, 3], m_edges = [2, 4],
     heap_nodes = (\<lambda>p. None)
       (0 \<mapsto> \<lparr> node_id = 0, node_type = NODE_UNDEFINED, node_name = ''a'',
               node_edges = [2], node_signature = None \<rparr>,
        1 \<mapsto> \<lparr> node_id = 1, node_type = NODE_UNDEFINED, node_name = ''a::b'',
               node_edges = [2, 4], node_signature = None \<rparr>,
        3 \<mapsto> \<lparr> node_id = 3, node_type = type, node_name = ''a::b::c'',
               node_edges = [4], node_signature = None \<rparr>),
     heap_edges = (\<lambda>p. None)
       (2 \<mapsto> \<lparr> edge_id = 2, edge_type = EDGE_MEMBER, edge_from = 0, edge_to = 1 \<rparr>,
        4 \<mapsto> \<lparr> edge_id = 4, edge_type = EDGE_MEMBER, edge_from = 1, edge_to = 3 \<rparr>),
     next_ptr = 5, next_id = 5, logged = [] \<rparr>"

text \<open>
  An empty graph in a program where another graph owns the nodes at 0 and 1 and an edge of
  a type other than membership between them at 2.
\<close>

definition graph_elsewhere :: Graph where
  "graph_elsewhere = \<lparr> m_nodes = [], m_edges = [],
     heap_nodes = (\<lambda>p. None)
       (0 \<mapsto> \<lparr> node_id = 0, node_type = NODE_UNDEFINED, node_name = ''a'',
               node_edges = [2], node_signature = None \<rparr>,
        1 \<mapsto> \<lparr> node_id = 1, node_type = NODE_UNDEFINED, node_name = ''b'',
               node_edges = [2], node_signature = None \<rparr>),
     heap_edges = (\<lambda>p. None)
       (2 \<mapsto> \<lparr> edge_id = 2, edge_type = EDGE_OTHER 0, edge_from = 0, edge_to = 1 \<rparr>),
     next_ptr = 3, next_id = 3, logged = [] \<rparr>"

text \<open>
  The graph after \<^verbatim>\<open>createNodeHierarchy("a")\<close>, \<^verbatim>\<open>createNodeHierarchy("b")\<close> and
  \<^verbatim>\<open>createEdge(t, b, a)\<close> for an edge type \<open>t\<close> other than membership: the nodes a at 0
  and b at 1, the edge from b to a at 2.
\<close>

definition graph_ba :: Graph where
  "graph_ba = \<lparr> m_nodes = [0, 1], m_edges = [2],
     heap_nodes = (\<lambda>p. None)
       (1 \<mapsto> \<lparr> node_id = 1, node_type = NODE_UNDEFINED, node_name = ''b'',
               node_edges = [2], node_signature = None \<rparr>,
        0 \<mapsto> \<lparr> node_id = 0, node_type = NODE_UNDEFINED, node_name = ''a'',
               node_edges = [2], node_signature = None \<rparr>),
     heap_edges = (\<lambda>p. None)
       (2 \<mapsto> \<lparr> edge_id = 2, edge_type = EDGE_OTHER 0, edge_from = 1, edge_to = 0 \<rparr>),
     next_ptr = 3, next_id = 3, logged = [] \<rparr>"

text \<open>
  The graph after \<^verbatim>\<open>createNodeHierarchyWithDistinctSignature("f", "A")\<close> and
  \<^verbatim>\<open>createNodeHierarchyWithDistinctSignature("f", "B")\<close>.
\<close>

definition graph_ff :: Graph where
  "graph_ff = \<lparr> m_nodes = [0, 1], m_edges = [],
     heap_nodes = (\<lambda>p. None)
       (0 \<mapsto> \<lparr> node_id = 0, node_type = NODE_UNDEFINED, node_name = ''f'',
               node_edges = [], node_signature = Some ''A'' \<rparr>,
        1 \<mapsto> \<lparr> node_id = 1, node_type = NODE_UNDEFINED, node_name = ''f'',
               node_edges = [], node_signature = Some ''B'' \<rparr>),
     heap_edges = (\<lambda>p. None),
     next_ptr = 2, next_id = 2, logged = [] \<rparr>"

text \<open>
  An empty graph in a program where another graph owns a node named f, without a
  signature, at 0.
\<close>

definition graph_beside_f :: Graph where
  "graph_beside_f = \<lparr> m_nodes = [], m_edges = [],
     heap_nodes = (\<lambda>p. None)
       (0 \<mapsto> \<lparr> node_id = 0, node_type = NODE_UNDEFINED, node_name = ''f'',
               node_edges = [], node_signature = None \<rparr>),
     heap_edges = (\<lambda>p. None),
     next_ptr = 1, next_id = 1, logged = [] \<rparr>"

text \<open>
  That graph after \<^verbatim>\<open>createNodeHierarchyWithDistinctSignature("f", "A")\<close> and
  \<^verbatim>\<open>addNodeAsPlainCopy\<close> of the other graph's node: its own node f with the signature "A"
  at 1, and the copy of the other node, named f and without a signature, at 2.
\<close>

definition graph_f_copy :: Graph where
  "graph_f_copy = \<lparr> m_nodes = [1, 2], m_edges = [],
     heap_nodes = (\<lambda>p. None)
       (0 \<mapsto> \<lparr> node_id = 0, node_type = NODE_UNDEFINED, node_name = ''f'',
               node_edges = [], node_signature = None \<rparr>,
        1 \<mapsto> \<lparr> node_id = 1, node_type = NODE_UNDEFINED, node_name = ''f'',
               node_edges = [], node_signature = Some ''A'' \<rparr>,
        2 \<mapsto> \<lparr> node_id = 0, node_type = NODE_UNDEFINED, node_name = ''f'',
               node_edges = [], node_signature = None \<rparr>),
     heap_edges = (\<lambda>p. None),
     next_ptr = 3, next_id = 2, logged = [] \<rparr>"

text \<open>
  A graph with the one node a at 0, in a program where another graph owns the node b at 1
  and an edge from a to b at 2: the edge is in the index of a and not in \<^verbatim>\<open>m_edges\<close>.
\<close>

definition graph_shared :: Graph where
  "graph_shared = \<lparr> m_nodes = [0], m_edges = [],
     heap_nodes = (\<lambda>p. None)
       (0 \<mapsto> \<lparr> node_id = 0, node_type = NODE_UNDEFINED, node_name = ''a'',
               node_edges = [2], node_signature = None \<rparr>,
        1 \<mapsto> \<lparr> node_id = 1, node_type = NODE_UNDEFINED, node_name = ''b'',
               node_edges = [2], node_signature = None \<rparr>),
     heap_edges = (\<lambda>p. None)
       (2 \<mapsto> \<lparr> edge_id = 2, edge_type = EDGE_OTHER 0, edge_from = 0, edge_to = 1 \<rparr>),
     next_ptr = 3, next_id = 3, logged = [] \<rparr>"

text \<open>The visitor that \<^verbatim>\<open>removeNode\<close> passes to \<^verbatim>\<open>forEachEdgeOfType\<close> (lines 146-152).\<close>

definition visitMember :: "nat \<Rightarrow> ptr \<Rightarrow> ptr \<Rightarrow> Graph \<Rightarrow> (fault + Graph) option" where
  "visitMember k node = (\<lambda>e g1. case heap_edges g1 e of
                                       None \<Rightarrow> Some (Inl DanglingPointer)
                                     | Some x \<Rightarrow>
                                         if node = edge_from x then removeNode k g1 (edge_to x)
                                         else Some (Inr g1))"

text \<open>
  The state after \<^verbatim>\<open>addNodeAsPlainCopy\<close> has pushed a copy of \<open>other\<close> (lines 291-292).
\<close>

definition pushNodeCopy :: "Graph \<Rightarrow> Node \<Rightarrow> Graph" where
  "pushNodeCopy g other = g\<lparr> heap_nodes := (heap_nodes g)(next_ptr g \<mapsto> other\<lparr> node_edges := [] \<rparr>),
      next_ptr := next_ptr g + 1, m_nodes := m_nodes g @ [next_ptr g] \<rparr>"

text \<open>
  The membership hierarchy. \<open>children g\<close> relates a node to the targets of the membership
  edges of the graph that leave it; \<open>subtree g p\<close> is \<open>p\<close> with its descendants, the nodes
  reachable from \<open>p\<close> over membership edges.
\<close>

definition touches :: "Graph \<Rightarrow> ptr set \<Rightarrow> ptr \<Rightarrow> bool" where
  "touches g D e = (case heap_edges g e of None \<Rightarrow> False | Some x \<Rightarrow> edge_from x \<in> D \<or> edge_to x \<in> D)"

definition is_member :: "Graph \<Rightarrow> ptr \<Rightarrow> bool" where
  "is_member g e = (case heap_edges g e of None \<Rightarrow> False | Some x \<Rightarrow> edge_type x = EDGE_MEMBER)"

definition children :: "Graph \<Rightarrow> (ptr \<times> ptr) set" where
  "children g = {(a, b). \<exists>e\<in>set (m_edges g). \<exists>x. heap_edges g e = Some x
                    \<and> edge_type x = EDGE_MEMBER \<and> edge_from x = a \<and> edge_to x = b}"

definition subtree :: "Graph \<Rightarrow> ptr \<Rightarrow> ptr set" where
  "subtree g p = (children g)\<^sup>* `` {p}"

text \<open>
  The representation invariant of the container: no pointer is twice in a vector, the
  objects of the vectors are alive, an edge of the graph joins nodes of the graph, and the
  index of a node holds exactly the edges of the graph that are incident to it.
\<close>

definition consistent :: "Graph \<Rightarrow> bool" where
  "consistent g \<longleftrightarrow>
     distinct (m_nodes g) \<and> distinct (m_edges g)
     \<and> (\<forall>p\<in>set (m_nodes g). \<exists>n. heap_nodes g p = Some n
           \<and> set (node_edges n) = {e \<in> set (m_edges g). touches g {p} e})
     \<and> (\<forall>e\<in>set (m_edges g). \<exists>x. heap_edges g e = Some x
           \<and> edge_from x \<in> set (m_nodes g) \<and> edge_to x \<in> set (m_nodes g))"

text \<open>
  The membership edges form a forest in the order of creation: a membership edge leads
  from a node to one that stands later in \<^verbatim>\<open>m_nodes\<close>, a node has at most one membership
  edge that enters it, and no membership edge stands twice in an index. Graphs built by
  \<^verbatim>\<open>createNodeHierarchy\<close> are of this kind: a parent is inserted before its child.
\<close>

definition hierarchy :: "Graph \<Rightarrow> bool" where
  "hierarchy g \<longleftrightarrow>
     consistent g
     \<and> (\<forall>p\<in>set (m_nodes g). \<forall>n. heap_nodes g p = Some n
           \<longrightarrow> distinct (filter (is_member g) (node_edges n)))
     \<and> (\<forall>e\<in>set (m_edges g). \<forall>x. heap_edges g e = Some x \<and> edge_type x = EDGE_MEMBER
           \<longrightarrow> (\<exists>i j. position (m_nodes g) (edge_from x) = Some i
                    \<and> position (m_nodes g) (edge_to x) = Some j \<and> i < j))
     \<and> (\<forall>e\<in>set (m_edges g). \<forall>e'\<in>set (m_edges g). \<forall>x x'.
           heap_edges g e = Some x \<and> heap_edges g e' = Some x'
           \<and> edge_type x = EDGE_MEMBER \<and> edge_type x' = EDGE_MEMBER \<and> edge_to x = edge_to x'
           \<longrightarrow> e = e')"

text \<open>
  The graph without the edges of a set \<open>E\<close>: they are gone from \<^verbatim>\<open>m_edges\<close>, from the
  store and from the index of every node of the graph.
\<close>

definition unlink :: "ptr set \<Rightarrow> Graph \<Rightarrow> Graph" where
  "unlink E g = g\<lparr>
     m_edges := filter (\<lambda>e. e \<notin> E) (m_edges g),
     heap_nodes := (\<lambda>p. if p \<in> set (m_nodes g)
                         then map_option (\<lambda>n. n\<lparr> node_edges :=
                                filter (\<lambda>e. \<not> (e \<in> E \<and> e \<in> set (m_edges g))) (node_edges n) \<rparr>)
                                (heap_nodes g p)
                         else heap_nodes g p),
     heap_edges := (\<lambda>e. if e \<in> E \<and> e \<in> set (m_edges g) then None else heap_edges g e) \<rparr>"

text \<open>
  The graph without the nodes of a set \<open>D\<close> and without the edges incident to them.
\<close>

definition purge :: "ptr set \<Rightarrow> Graph \<Rightarrow> Graph" where
  "purge D g = g\<lparr>
     m_nodes := filter (\<lambda>p. p \<notin> D) (m_nodes g),
     m_edges := filter (\<lambda>e. \<not> touches g D e) (m_edges g),
     heap_nodes := (\<lambda>p. if p \<in> D then None
                         else if p \<in> set (m_nodes g)
                         then map_option (\<lambda>n. n\<lparr> node_edges :=
                                filter (\<lambda>e. \<not> (e \<in> set (m_edges g) \<and> touches g D e)) (node_edges n) \<rparr>)
                                (heap_nodes g p)
                         else heap_nodes g p),
     heap_edges := (\<lambda>e. if e \<in> set (m_edges g) \<and> touches g D e then None else heap_edges g e) \<rparr>"

text \<open>A set of nodes that holds the children of its elements.\<close>

definition closed :: "Graph \<Rightarrow> ptr set \<Rightarrow> bool" where
  "closed g D = (\<forall>a b. (a, b) \<in> children g \<longrightarrow> a \<in> D \<longrightarrow> b \<in> D)"

text \<open>
  The subtrees of the children that the membership edges of a list \<open>es\<close> lead to from
  \<open>p\<close>.
\<close>

definition below :: "Graph \<Rightarrow> ptr \<Rightarrow> ptr list \<Rightarrow> ptr set" where
  "below g p es = (\<Union>e\<in>set es. case heap_edges g e of
                                    None \<Rightarrow> {}
                                  | Some x \<Rightarrow> if p = edge_from x then subtree g (edge_to x) else {})"

text \<open>
  The graph after \<^verbatim>\<open>createNodeHierarchy("a")\<close> and \<^verbatim>\<open>createEdge(EDGE_MEMBER, a, a)\<close>:
  the node a is its own child.
\<close>

definition graph_loop :: Graph where
  "graph_loop = \<lparr> m_nodes = [0], m_edges = [1],
     heap_nodes = (\<lambda>p. None)
       (0 \<mapsto> \<lparr> node_id = 0, node_type = NODE_UNDEFINED, node_name = ''a'',
               node_edges = [1, 1], node_signature = None \<rparr>),
     heap_edges = (\<lambda>p. None)
       (1 \<mapsto> \<lparr> edge_id = 1, edge_type = EDGE_MEMBER, edge_from = 0, edge_to = 0 \<rparr>),
     next_ptr = 2, next_id = 2, logged = [] \<rparr>"

text \<open>
  The graph after \<^verbatim>\<open>createNodeHierarchy("b")\<close>, \<^verbatim>\<open>createNodeHierarchy("a")\<close> and
  \<^verbatim>\<open>createEdge(EDGE_MEMBER, a, b)\<close>: the child b at 0 stands before its parent a at 1.
\<close>

definition graph_ba_member :: Graph where
  "graph_ba_member = \<lparr> m_nodes = [0, 1], m_edges = [2],
     heap_nodes = (\<lambda>p. None)
       (1 \<mapsto> \<lparr> node_id = 1, node_type = NODE_UNDEFINED, node_name = ''a'',
               node_edges = [2], node_signature = None \<rparr>,
        0 \<mapsto> \<lparr> node_id = 0, node_type = NODE_UNDEFINED, node_name = ''b'',
               node_edges = [2], node_signature = None \<rparr>),
     heap_edges = (\<lambda>p. None)
       (2 \<mapsto> \<lparr> edge_id = 2, edge_type = EDGE_MEMBER, edge_from = 1, edge_to = 0 \<rparr>),
     next_ptr = 3, next_id = 3, logged = [] \<rparr>"

section \<open>Properties\<close>

subsection \<open>Evaluation\<close>

lemmas eval_defs =
  createNodeHierarchy_def createNodeHierarchyWithDistinctSignature_def getNode_def getNodeById_def
  getEdgeById_def getTokenById_def findToken_def findNode_def findEdge_def insertNodeHierarchy_def
  utility_split_def DELIMITER_def insertNodeHierarchy_loop.simps insertNode_def Node_new_def
  Node_alloc_def Node_copy_def Token_newId_def createEdge_def getEdge_def Node_findEdgeOfType_def
  Node_getParentNode_def Node_addComponentSignature_def insertEdge_def Edge_new_def Edge_alloc_def
  Edge_copy_def Edge_delete_def Node_delete_def Node_addEdge_def Node_removeEdge_def Node_setType_def
  removeEdge_def removeEdgeInternal_def removeNode_finish_def erase_def LOG_WARNING_def LOG_ERROR_def
  addNodeAsPlainCopy_def addEdgeAsPlainCopy_def Graph_init_def Let_def eval_nat_numeral

lemma graph_abc_built:
  "createNodeHierarchy Graph_init type ''a::b::c'' = Inr (graph_abc type, Some 3)"
  by (simp add: eval_defs graph_abc_def)

lemma graph_ba_built:
  "\<exists>g1 g2. createNodeHierarchy Graph_init NODE_UNDEFINED ''a'' = Inr (g1, Some 0)
     \<and> createNodeHierarchy g1 NODE_UNDEFINED ''b'' = Inr (g2, Some 1)
     \<and> createEdge g2 (EDGE_OTHER 0) 1 0 = Inr (graph_ba, 2)"
  by (simp add: eval_defs graph_ba_def)

lemma graph_ff_built:
  "\<exists>g1. createNodeHierarchyWithDistinctSignature Graph_init NODE_UNDEFINED ''f'' ''A'' = Inr (g1, Some 0)
     \<and> createNodeHierarchyWithDistinctSignature g1 NODE_UNDEFINED ''f'' ''B'' = Inr (graph_ff, Some 1)"
  by (simp add: eval_defs graph_ff_def)

lemma graph_f_copy_built:
  "\<exists>g1. createNodeHierarchyWithDistinctSignature graph_beside_f NODE_UNDEFINED ''f'' ''A'' = Inr (g1, Some 1)
     \<and> addNodeAsPlainCopy g1 0 = Inr (graph_f_copy, 2)"
  by (simp add: eval_defs graph_beside_f_def graph_f_copy_def)

lemma owned_graph_abc: "owned (graph_abc type)"
  by (simp add: owned_def graph_abc_def)

subsection \<open>Searching\<close>

lemma position_None: "position xs p = None \<longleftrightarrow> p \<notin> set xs"
  by (induction xs) auto

lemma find_if_fault: "find_if h func ps = Inl f \<Longrightarrow> f = DanglingPointer"
  by (induction ps) (auto split: option.splits if_splits)

lemma find_if_Some:
  "find_if h func ps = Inr (Some p) \<Longrightarrow> p \<in> set ps \<and> (\<exists>x. h p = Some x \<and> func x)"
  by (induction ps) (auto split: option.splits if_splits)

lemma find_if_live:
  "\<forall>p\<in>set ps. h p \<noteq> None \<Longrightarrow> find_if h func ps = Inr (find (\<lambda>p. func (the (h p))) ps)"
  by (induction ps) auto

lemma find_if_None_iff:
  "\<forall>p\<in>set ps. h p \<noteq> None \<Longrightarrow>
     find_if h func ps = Inr None \<longleftrightarrow> (\<forall>p\<in>set ps. \<forall>x. h p = Some x \<longrightarrow> \<not> func x)"
  by (force simp: find_if_live find_None_iff)

lemma find_if_total:
  "\<forall>p\<in>set ps. h p \<noteq> None \<Longrightarrow>
     \<exists>r. find_if h func ps = Inr r
       \<and> (r = None \<longleftrightarrow> (\<forall>p\<in>set ps. \<forall>x. h p = Some x \<longrightarrow> \<not> func x))"
  using find_if_live [of ps h func] find_if_None_iff [of ps h func] by simp

lemma findToken_node_first:
  assumes "\<forall>p\<in>set (m_nodes g). heap_nodes g p \<noteq> None"
    and "p \<in> set (m_nodes g)" and "heap_nodes g p = Some n" and "func (node_id n)"
  shows "\<exists>q x. findToken g func = Inr (Some (TokenNode q)) \<and> q \<in> set (m_nodes g)
           \<and> heap_nodes g q = Some x \<and> func (node_id x)"
proof -
  obtain r where r: "findNode g (\<lambda>n. func (node_id n)) = Inr r"
    and "r = None \<longleftrightarrow> (\<forall>p\<in>set (m_nodes g). \<forall>x. heap_nodes g p = Some x \<longrightarrow> \<not> func (node_id x))"
    using find_if_total [OF assms(1), of "\<lambda>n. func (node_id n)"] unfolding findNode_def by blast
  with assms(2-4) obtain q where q: "r = Some q" by (cases r) auto
  from find_if_Some [of "heap_nodes g" "\<lambda>n. func (node_id n)" "m_nodes g" q] r q
  have "q \<in> set (m_nodes g) \<and> (\<exists>x. heap_nodes g q = Some x \<and> func (node_id x))"
    by (simp add: findNode_def)
  with r q show ?thesis by (auto simp: findToken_def)
qed

lemma findToken_total:
  assumes "owned g"
  shows "\<exists>r. findToken g func = Inr r \<and>
     (r = None \<longleftrightarrow> (\<forall>p\<in>set (m_nodes g). \<forall>x. heap_nodes g p = Some x \<longrightarrow> \<not> func (node_id x))
                  \<and> (\<forall>e\<in>set (m_edges g). \<forall>x. heap_edges g e = Some x \<longrightarrow> \<not> func (edge_id x)))"
proof -
  from assms have n: "\<forall>p\<in>set (m_nodes g). heap_nodes g p \<noteq> None"
    and e: "\<forall>p\<in>set (m_edges g). heap_edges g p \<noteq> None" by (auto simp: owned_def)
  obtain r1 where r1: "findNode g (\<lambda>n. func (node_id n)) = Inr r1"
    "r1 = None \<longleftrightarrow> (\<forall>p\<in>set (m_nodes g). \<forall>x. heap_nodes g p = Some x \<longrightarrow> \<not> func (node_id x))"
    using find_if_total [OF n, of "\<lambda>n. func (node_id n)"] unfolding findNode_def by blast
  obtain r2 where r2: "findEdge g (\<lambda>n. func (edge_id n)) = Inr r2"
    "r2 = None \<longleftrightarrow> (\<forall>p\<in>set (m_edges g). \<forall>x. heap_edges g p = Some x \<longrightarrow> \<not> func (edge_id x))"
    using find_if_total [OF e, of "\<lambda>n. func (edge_id n)"] unfolding findEdge_def by blast
  show ?thesis
  proof (cases r1)
    case None
    with r1 r2 show ?thesis by (cases r2) (auto simp: findToken_def)
  next
    case (Some q)
    with r1 show ?thesis by (auto simp: findToken_def)
  qed
qed

text \<open>
  In a state where the two vectors own live objects, every lookup returns a result and
  never a fault, and the result is absent exactly when nothing matches: \<^verbatim>\<open>getNode\<close>,
  \<^verbatim>\<open>getNodeById\<close>, \<^verbatim>\<open>getEdgeById\<close> and \<^verbatim>\<open>getTokenById\<close> over the vectors, and \<^verbatim>\<open>getEdge\<close>
  over the index of a live node \<open>from\<close> whose entries are live. The lookups take the state
  and return no state: they log nothing. For \<^verbatim>\<open>getEdge\<close> a match is an entry of the index
  with the type and the target asked for, whatever its source. \<^verbatim>\<open>getTokenById\<close> scans the nodes first: when a
  node of the graph has the id, the result is a node with that id, whatever the edges hold.
\<close>

lemma lookups_total:
  assumes "owned g"
  shows "(\<exists>r. getNode g fullName = Inr r \<and>
            (r = None \<longleftrightarrow> (\<forall>p\<in>set (m_nodes g). \<forall>n. heap_nodes g p = Some n \<longrightarrow> node_name n \<noteq> fullName)))
       \<and> (\<exists>r. getNodeById g i = Inr r \<and>
            (r = None \<longleftrightarrow> (\<forall>p\<in>set (m_nodes g). \<forall>n. heap_nodes g p = Some n \<longrightarrow> node_id n \<noteq> i)))
       \<and> (\<exists>r. getEdgeById g i = Inr r \<and>
            (r = None \<longleftrightarrow> (\<forall>e\<in>set (m_edges g). \<forall>x. heap_edges g e = Some x \<longrightarrow> edge_id x \<noteq> i)))
       \<and> (\<exists>r. getTokenById g i = Inr r \<and>
            (r = None \<longleftrightarrow> (\<forall>p\<in>set (m_nodes g). \<forall>n. heap_nodes g p = Some n \<longrightarrow> node_id n \<noteq> i)
                         \<and> (\<forall>e\<in>set (m_edges g). \<forall>x. heap_edges g e = Some x \<longrightarrow> edge_id x \<noteq> i)))
       \<and> (\<forall>p n. p \<in> set (m_nodes g) \<and> heap_nodes g p = Some n \<and> node_id n = i \<longrightarrow>
            (\<exists>q x. getTokenById g i = Inr (Some (TokenNode q)) \<and> q \<in> set (m_nodes g)
                  \<and> heap_nodes g q = Some x \<and> node_id x = i))
       \<and> (\<forall>n. heap_nodes g from = Some n \<and> (\<forall>e\<in>set (node_edges n). heap_edges g e \<noteq> None) \<longrightarrow>
            (\<exists>r. getEdge g type from to = Inr r \<and>
               (r = None \<longleftrightarrow> (\<forall>e\<in>set (node_edges n). \<forall>x. heap_edges g e = Some x \<longrightarrow>
                                  \<not> (edge_type x = type \<and> edge_to x = to)))))"
proof -
  from assms have n: "\<forall>p\<in>set (m_nodes g). heap_nodes g p \<noteq> None"
    and e: "\<forall>p\<in>set (m_edges g). heap_edges g p \<noteq> None" by (auto simp: owned_def)
  have c1: "\<exists>r. getNode g fullName = Inr r \<and>
            (r = None \<longleftrightarrow> (\<forall>p\<in>set (m_nodes g). \<forall>n. heap_nodes g p = Some n \<longrightarrow> node_name n \<noteq> fullName))"
    using find_if_total [OF n, of "\<lambda>n. node_name n = fullName"] by (simp add: getNode_def findNode_def)
  have c2: "\<exists>r. getNodeById g i = Inr r \<and>
            (r = None \<longleftrightarrow> (\<forall>p\<in>set (m_nodes g). \<forall>n. heap_nodes g p = Some n \<longrightarrow> node_id n \<noteq> i))"
    using find_if_total [OF n, of "\<lambda>n. node_id n = i"] by (simp add: getNodeById_def findNode_def)
  have c3: "\<exists>r. getEdgeById g i = Inr r \<and>
            (r = None \<longleftrightarrow> (\<forall>e\<in>set (m_edges g). \<forall>x. heap_edges g e = Some x \<longrightarrow> edge_id x \<noteq> i))"
    using find_if_total [OF e, of "\<lambda>n. edge_id n = i"] by (simp add: getEdgeById_def findEdge_def)
  have c4: "\<exists>r. getTokenById g i = Inr r \<and>
            (r = None \<longleftrightarrow> (\<forall>p\<in>set (m_nodes g). \<forall>n. heap_nodes g p = Some n \<longrightarrow> node_id n \<noteq> i)
                         \<and> (\<forall>e\<in>set (m_edges g). \<forall>x. heap_edges g e = Some x \<longrightarrow> edge_id x \<noteq> i))"
    using findToken_total [OF assms, of "\<lambda>t. t = i"] by (simp add: getTokenById_def)
  have c5: "\<forall>p n. p \<in> set (m_nodes g) \<and> heap_nodes g p = Some n \<and> node_id n = i \<longrightarrow>
            (\<exists>q x. getTokenById g i = Inr (Some (TokenNode q)) \<and> q \<in> set (m_nodes g)
                  \<and> heap_nodes g q = Some x \<and> node_id x = i)"
    using findToken_node_first [OF n, of _ _ "\<lambda>t. t = i"] by (auto simp: getTokenById_def)
  have c6: "\<forall>n. heap_nodes g from = Some n \<and> (\<forall>e\<in>set (node_edges n). heap_edges g e \<noteq> None) \<longrightarrow>
            (\<exists>r. getEdge g type from to = Inr r \<and>
               (r = None \<longleftrightarrow> (\<forall>e\<in>set (node_edges n). \<forall>x. heap_edges g e = Some x \<longrightarrow>
                                  \<not> (edge_type x = type \<and> edge_to x = to))))"
  proof (intro allI impI)
    fix n assume a: "heap_nodes g from = Some n \<and> (\<forall>e\<in>set (node_edges n). heap_edges g e \<noteq> None)"
    then have l: "\<forall>e\<in>set (node_edges n). heap_edges g e \<noteq> None" by simp
    show "\<exists>r. getEdge g type from to = Inr r \<and>
               (r = None \<longleftrightarrow> (\<forall>e\<in>set (node_edges n). \<forall>x. heap_edges g e = Some x \<longrightarrow>
                                  \<not> (edge_type x = type \<and> edge_to x = to)))"
      using find_if_total [OF l, of "\<lambda>e. edge_type e = type \<and> edge_to e = to"] a
      by (simp add: getEdge_def Node_findEdgeOfType_def)
  qed
  from c1 c2 c3 c4 c5 c6 show ?thesis by blast
qed

text \<open>
  The graph of "a::b::c": no node is named "x" and nothing has the id 7; the id 1 is the
  node "a::b"; no membership edge leads from "a" to "a::b::c".
\<close>

lemma lookups_total_graph_abc:
  "owned (graph_abc NODE_UNDEFINED)
   \<and> getNode (graph_abc NODE_UNDEFINED) ''x'' = Inr None
   \<and> getNodeById (graph_abc NODE_UNDEFINED) 7 = Inr None
   \<and> getEdgeById (graph_abc NODE_UNDEFINED) 7 = Inr None
   \<and> getTokenById (graph_abc NODE_UNDEFINED) 7 = Inr None
   \<and> getTokenById (graph_abc NODE_UNDEFINED) 1 = Inr (Some (TokenNode 1))
   \<and> getEdge (graph_abc NODE_UNDEFINED) EDGE_MEMBER 0 3 = Inr None"
proof -
  have o: "owned (graph_abc NODE_UNDEFINED)"
    by (rule owned_graph_abc)
  have e: "getNode (graph_abc NODE_UNDEFINED) ''x'' = Inr None"
    "getNodeById (graph_abc NODE_UNDEFINED) 7 = Inr None"
    "getEdgeById (graph_abc NODE_UNDEFINED) 7 = Inr None"
    "getTokenById (graph_abc NODE_UNDEFINED) 7 = Inr None"
    "getTokenById (graph_abc NODE_UNDEFINED) 1 = Inr (Some (TokenNode 1))"
    "getEdge (graph_abc NODE_UNDEFINED) EDGE_MEMBER 0 3 = Inr None"
    by (simp_all add: eval_defs graph_abc_def)
  show ?thesis
    using lookups_total [OF o, of "''x''" 7 0 EDGE_MEMBER 3] o e
    by (simp only: simp_thms)
qed

text \<open>
  When \<open>from\<close> and \<open>to\<close> differ and every entry of the index of \<open>from\<close> is an edge
  incident to \<open>from\<close>, an entry with the target \<open>to\<close> has the source \<open>from\<close>: then
  \<^verbatim>\<open>getEdge\<close> is absent exactly when the index holds no edge (type, from, to).
\<close>

lemma getEdge_distinct_endpoints:
  assumes "heap_nodes g from = Some n" and "from \<noteq> to"
    and "\<forall>e\<in>set (node_edges n). \<exists>x. heap_edges g e = Some x \<and> (edge_from x = from \<or> edge_to x = from)"
  shows "\<exists>r. getEdge g type from to = Inr r \<and>
     (r = None \<longleftrightarrow> (\<forall>e\<in>set (node_edges n). \<forall>x. heap_edges g e = Some x \<longrightarrow>
                        \<not> (edge_type x = type \<and> edge_from x = from \<and> edge_to x = to)))"
proof -
  from assms(3) have l: "\<forall>e\<in>set (node_edges n). heap_edges g e \<noteq> None" by auto
  from find_if_total [OF l, of "\<lambda>e. edge_type e = type \<and> edge_to e = to"] assms(1)
  obtain r where r: "getEdge g type from to = Inr r"
    and i: "r = None \<longleftrightarrow> (\<forall>e\<in>set (node_edges n). \<forall>x. heap_edges g e = Some x \<longrightarrow>
                        \<not> (edge_type x = type \<and> edge_to x = to))"
    by (auto simp: getEdge_def Node_findEdgeOfType_def)
  from assms(2,3) have "(\<forall>e\<in>set (node_edges n). \<forall>x. heap_edges g e = Some x \<longrightarrow>
                        \<not> (edge_type x = type \<and> edge_to x = to))
     \<longleftrightarrow> (\<forall>e\<in>set (node_edges n). \<forall>x. heap_edges g e = Some x \<longrightarrow>
                        \<not> (edge_type x = type \<and> edge_from x = from \<and> edge_to x = to))"
    by fastforce
  with r i show ?thesis by simp
qed

text \<open>
  C9. \<^verbatim>\<open>getEdge\<close> compares the type and the target of the entries of \<open>from\<close>'s index and
  never the source. In the graph whose one edge leads from b to a, the lookup of
  (t, a, a) has no edge with that triple to match, and yet it is not absent: it returns
  the edge from b to a, which the index of a holds as an entering edge.
\<close>

theorem getEdge_self_loop_not_absent:
  "getEdge graph_ba (EDGE_OTHER 0) 0 0 = Inr (Some 2)
   \<and> map (\<lambda>e. map_option (\<lambda>x. (edge_type x, edge_from x, edge_to x)) (heap_edges graph_ba e))
         (m_edges graph_ba) = [Some (EDGE_OTHER 0, 1, 0)]
   \<and> map_option node_edges (heap_nodes graph_ba 0) = Some [2]"
  by (simp add: graph_ba_def getEdge_def Node_findEdgeOfType_def)

subsection \<open>Removing an edge\<close>

text \<open>
  C5. \<^verbatim>\<open>removeEdge\<close> on a membership edge of the graph logs the error and returns: the
  state afterwards is the state before with that one message added, so the two vectors,
  every object and every id are as they were.
\<close>

theorem removeEdge_member_rejected:
  assumes "edge \<in> set (m_edges g)" and "heap_edges g edge = Some e" and "edge_type e = EDGE_MEMBER"
  shows "removeEdge g edge =
           Inr (g\<lparr> logged := logged g @ [(ERROR, ''Can't remove member edge, without removing the child node.'')] \<rparr>)"
  using assms by (simp add: removeEdge_def position_None LOG_ERROR_def)

theorem removeEdge_member_rejected_witness:
  "2 \<in> set (m_edges (graph_abc NODE_UNDEFINED))
   \<and> heap_edges (graph_abc NODE_UNDEFINED) 2
       = Some \<lparr> edge_id = 2, edge_type = EDGE_MEMBER, edge_from = 0, edge_to = 1 \<rparr>
   \<and> removeEdge (graph_abc NODE_UNDEFINED) 2 =
       Inr ((graph_abc NODE_UNDEFINED)\<lparr> logged :=
              [(ERROR, ''Can't remove member edge, without removing the child node.'')] \<rparr>)"
  using removeEdge_member_rejected [of 2 "graph_abc NODE_UNDEFINED"
      "\<lparr> edge_id = 2, edge_type = EDGE_MEMBER, edge_from = 0, edge_to = 1 \<rparr>"]
  by (simp add: graph_abc_def)

text \<open>
  C4, the half that holds: \<^verbatim>\<open>removeNode\<close> on a node that is not in the vector logs the
  warning and changes nothing else.
\<close>

lemma removeNode_absent:
  "node \<notin> set (m_nodes g) \<Longrightarrow>
     removeNode (Suc k) g node =
       Some (Inr (g\<lparr> logged := logged g @ [(WARNING, ''Node was not found in the graph.'')] \<rparr>))"
  by (simp add: position_None [symmetric] LOG_WARNING_def)

text \<open>
  C4, the half that fails: \<^verbatim>\<open>removeEdge\<close> has no \<^verbatim>\<open>return\<close> after its warning. For an
  edge of another type than membership that is not in the vector it goes on to
  \<^verbatim>\<open>m_edges.erase(m_edges.end())\<close>.
\<close>

theorem removeEdge_absent_erases_at_end:
  "position (m_edges graph_elsewhere) 2 = None
   \<and> removeEdge graph_elsewhere 2 = Inl InvalidIterator"
  by (simp add: graph_elsewhere_def removeEdge_def LOG_WARNING_def)

lemma removeEdge_absent:
  assumes "edge \<notin> set (m_edges g)" and "heap_edges g edge = Some e"
  shows "removeEdge g edge =
     (if edge_type e = EDGE_MEMBER
      then Inr (g\<lparr> logged := logged g @ [(WARNING, ''Edge was not found in the graph.''),
             (ERROR, ''Can't remove member edge, without removing the child node.'')] \<rparr>)
      else Inl InvalidIterator)"
  using assms by (simp add: removeEdge_def position_None [symmetric] LOG_WARNING_def LOG_ERROR_def)

subsection \<open>Creating edges and nodes\<close>

text \<open>
  C2. On the empty graph \<^verbatim>\<open>createNodeHierarchy(type, "a::b::c")\<close> returns the leaf and
  leaves three nodes and two edges, both membership edges; a second call returns the same
  leaf, with the same id, and the vectors are as the first call left them.
\<close>

theorem createNodeHierarchy_abc:
  "\<exists>g1 g2 leaf. createNodeHierarchy Graph_init type ''a::b::c'' = Inr (g1, Some leaf)
     \<and> length (m_nodes g1) = 3 \<and> length (m_edges g1) = 2
     \<and> map (\<lambda>e. map_option edge_type (heap_edges g1 e)) (m_edges g1)
         = [Some EDGE_MEMBER, Some EDGE_MEMBER]
     \<and> createNodeHierarchy g1 type ''a::b::c'' = Inr (g2, Some leaf)
     \<and> map_option node_id (heap_nodes g2 leaf) = map_option node_id (heap_nodes g1 leaf)
     \<and> m_nodes g2 = m_nodes g1 \<and> m_edges g2 = m_edges g1"
proof (cases "type = NODE_UNDEFINED")
  case True
  then show ?thesis by (simp add: graph_abc_built) (simp add: eval_defs graph_abc_def)
next
  case False
  then show ?thesis by (simp add: graph_abc_built) (simp add: eval_defs graph_abc_def)
qed

text \<open>
  C3. \<^verbatim>\<open>getEdge\<close> compares the type and the target of the entries of \<open>from\<close>'s index, which
  holds the edges that enter \<open>from\<close> as well. In the graph with the one edge from b to a,
  \<^verbatim>\<open>createEdge(t, a, a)\<close> finds that edge: it returns it and stores nothing, although no
  edge from a to a exists.
\<close>

theorem createEdge_self_loop_returns_incoming:
  "createEdge graph_ba (EDGE_OTHER 0) 0 0 = Inr (graph_ba, 2)
   \<and> map_option (\<lambda>e. (edge_type e, edge_from e, edge_to e)) (heap_edges graph_ba 2)
       = Some (EDGE_OTHER 0, 1, 0)
   \<and> m_edges graph_ba = [2]"
  by (simp add: graph_ba_def createEdge_def getEdge_def Node_findEdgeOfType_def)

text \<open>
  C6. \<^verbatim>\<open>getNode\<close> returns the first node of the name, and only its signature is
  compared. After "f" with signature "A" and "f" with signature "B", a call with "B" again
  meets the node with "A": it creates a third node, and two nodes "f" carry "B".
\<close>

theorem distinctSignature_third_call_duplicates:
  "\<exists>g. createNodeHierarchyWithDistinctSignature graph_ff NODE_UNDEFINED ''f'' ''B'' = Inr (g, Some 2)
     \<and> m_nodes g = [0, 1, 2]
     \<and> map (\<lambda>p. map_option (\<lambda>n. (node_name n, node_signature n)) (heap_nodes g p)) (m_nodes g)
         = [Some (''f'', Some ''A''), Some (''f'', Some ''B''), Some (''f'', Some ''B'')]"
  by (simp add: eval_defs graph_ff_def)

subsection \<open>Faults of the creation methods\<close>

lemma Node_addEdge_fault: "Node_addEdge g n e = Inl f \<Longrightarrow> f = DanglingPointer"
  by (auto simp: Node_addEdge_def split: option.splits)

lemma Node_setType_fault: "Node_setType g n t = Inl f \<Longrightarrow> f = DanglingPointer"
  by (auto simp: Node_setType_def split: option.splits)

lemma Node_addComponentSignature_fault:
  "Node_addComponentSignature g n s = Inl f \<Longrightarrow> f = DanglingPointer"
  by (auto simp: Node_addComponentSignature_def split: option.splits)

lemma Node_findEdgeOfType_fault: "Node_findEdgeOfType g n t func = Inl f \<Longrightarrow> f = DanglingPointer"
  by (auto simp: Node_findEdgeOfType_def split: option.splits dest: find_if_fault)

lemma Node_getParentNode_fault: "Node_getParentNode g n = Inl f \<Longrightarrow> f = DanglingPointer"
  by (auto simp: Node_getParentNode_def split: option.splits sum.splits dest: Node_findEdgeOfType_fault)

lemma Edge_alloc_fault: "Edge_alloc g e = Inl f \<Longrightarrow> f = DanglingPointer"
  by (auto simp: Edge_alloc_def Let_def split: sum.splits dest: Node_addEdge_fault)

lemma insertEdge_fault: "insertEdge g t a b = Inl f \<Longrightarrow> f = DanglingPointer"
  by (auto simp: insertEdge_def Edge_new_def Token_newId_def split: sum.splits prod.splits dest: Edge_alloc_fault)

lemma createEdge_fault: "createEdge g t a b = Inl f \<Longrightarrow> f = DanglingPointer"
  by (auto simp: createEdge_def getEdge_def split: sum.splits option.splits
      dest: insertEdge_fault Node_findEdgeOfType_fault)

lemma insertNode_fault: "insertNode g t name parent = Inl f \<Longrightarrow> f = DanglingPointer"
  by (auto simp: insertNode_def Let_def split: sum.splits option.splits prod.splits dest: createEdge_fault)

lemma getNode_fault: "getNode g name = Inl f \<Longrightarrow> f = DanglingPointer"
  by (auto simp: getNode_def findNode_def dest: find_if_fault)

lemma insertNodeHierarchy_loop_result:
  "(insertNodeHierarchy_loop type names i node name g = Inl f \<longrightarrow> f = DanglingPointer)
   \<and> (insertNodeHierarchy_loop type names i node name g = Inr (g', None) \<longrightarrow> length names \<le> i \<and> node = None)"
proof (induction type names i node name g rule: insertNodeHierarchy_loop.induct)
  case (1 type names i node name g)
  show ?case
  proof (cases "i < length names")
    case False
    then show ?thesis by (simp add: insertNodeHierarchy_loop.simps)
  next
    case True
    define name2 where "name2 = (if 0 < i then name @ DELIMITER else name) @ names ! i"
    have unf: "insertNodeHierarchy_loop type names i node name g =
      (case getNode g name2 of
         Inl f \<Rightarrow> Inl f
       | Inr (Some childNode) \<Rightarrow> insertNodeHierarchy_loop type names (Suc i) (Some childNode) name2 g
       | Inr None \<Rightarrow>
           (case insertNode g (if i = length names - 1 then type else NODE_UNDEFINED) name2 node of
              Inl f \<Rightarrow> Inl f
            | Inr (g1, childNode) \<Rightarrow>
                insertNodeHierarchy_loop type names (Suc i) (Some childNode) name2 g1))"
      unfolding name2_def using True
      by (subst insertNodeHierarchy_loop.simps) (simp only: if_True Let_def)
    show ?thesis
    proof (cases "getNode g name2")
      case (Inl x)
      then show ?thesis by (auto simp: unf dest: getNode_fault)
    next
      case (Inr r)
      show ?thesis
      proof (cases r)
        case (Some c)
        from "1.IH"(2) [OF True refl refl Inr [unfolded name2_def] Some]
        show ?thesis using Inr Some by (simp add: unf name2_def)
      next
        case None
        show ?thesis
        proof (cases "insertNode g (if i = length names - 1 then type else NODE_UNDEFINED) name2 node")
          case (Inl x)
          with \<open>getNode g name2 = Inr r\<close> None show ?thesis
            by (auto simp: unf dest: insertNode_fault)
        next
          case (Inr y)
          obtain g1 c where y: "y = (g1, c)" by (cases y)
          from "1.IH"(1) [OF True refl refl \<open>getNode g name2 = Inr r\<close> [unfolded name2_def] None
              Inr [unfolded name2_def] y [symmetric]]
          show ?thesis using \<open>getNode g name2 = Inr r\<close> None Inr y by (simp add: unf name2_def)
        qed
      qed
    qed
  qed
qed

lemma split_from_nonempty: "split_from d acc s \<noteq> []"
  by (induction d acc s rule: split_from.induct) auto

lemma insertNodeHierarchy_fault: "insertNodeHierarchy g type fullName = Inl f \<Longrightarrow> f = DanglingPointer"
  using insertNodeHierarchy_loop_result by (simp add: insertNodeHierarchy_def)

lemma insertNodeHierarchy_not_null: "insertNodeHierarchy g type fullName \<noteq> Inr (g', None)"
  using insertNodeHierarchy_loop_result [of type "utility_split fullName DELIMITER" 0 None "[]" g _ g']
    split_from_nonempty [of DELIMITER "[]" fullName]
  by (auto simp add: insertNodeHierarchy_def utility_split_def)

text \<open>
  The node that \<^verbatim>\<open>getNode\<close> returns is the first node of the name in \<^verbatim>\<open>m_nodes\<close>.
\<close>

lemma getNode_first:
  "\<forall>q\<in>set (m_nodes g). heap_nodes g q \<noteq> None \<Longrightarrow>
     getNode g fullName = Inr (find (\<lambda>q. node_name (the (heap_nodes g q)) = fullName) (m_nodes g))"
  by (simp add: getNode_def findNode_def find_if_live)

text \<open>
  C10. \<^verbatim>\<open>createNodeHierarchyWithDistinctSignature\<close> reads the signature of the node that
  \<^verbatim>\<open>getNode\<close> returns, the first node of the full name in \<^verbatim>\<open>m_nodes\<close>, without a check:
  the call dereferences a null component exactly when that node has no signature
  attached. When every node of the graph with the full name has a signature, no null
  pointer is dereferenced.
\<close>

theorem distinctSignature_null_component:
  "(createNodeHierarchyWithDistinctSignature g type fullName signature = Inl NullPointer
      \<longleftrightarrow> (\<exists>node n. getNode g fullName = Inr (Some node) \<and> heap_nodes g node = Some n
                      \<and> node_signature n = None))
   \<and> ((\<forall>q\<in>set (m_nodes g). heap_nodes g q \<noteq> None) \<longrightarrow>
        (createNodeHierarchyWithDistinctSignature g type fullName signature = Inl NullPointer
           \<longleftrightarrow> (\<exists>node n. find (\<lambda>q. node_name (the (heap_nodes g q)) = fullName) (m_nodes g) = Some node
                      \<and> heap_nodes g node = Some n \<and> node_signature n = None)))
   \<and> ((\<forall>p\<in>set (m_nodes g). \<forall>n. heap_nodes g p = Some n \<and> node_name n = fullName
           \<longrightarrow> node_signature n \<noteq> None)
        \<longrightarrow> createNodeHierarchyWithDistinctSignature g type fullName signature \<noteq> Inl NullPointer)"
proof -
  have iff: "createNodeHierarchyWithDistinctSignature g type fullName signature = Inl NullPointer
      \<longleftrightarrow> (\<exists>node n. getNode g fullName = Inr (Some node) \<and> heap_nodes g node = Some n
                      \<and> node_signature n = None)"
  proof (cases "getNode g fullName")
    case (Inl f)
    then show ?thesis
      by (auto simp: createNodeHierarchyWithDistinctSignature_def dest: getNode_fault)
  next
    case (Inr r)
    show ?thesis
    proof (cases r)
      case None
      with Inr show ?thesis
        using insertNodeHierarchy_not_null [of g type fullName]
        by (auto simp: createNodeHierarchyWithDistinctSignature_def
            split: sum.splits option.splits prod.splits
            dest: insertNodeHierarchy_fault Node_addComponentSignature_fault)
    next
      case (Some node)
      with Inr show ?thesis
        by (auto simp: createNodeHierarchyWithDistinctSignature_def
            split: sum.splits option.splits prod.splits
            dest: Node_setType_fault Node_getParentNode_fault insertNode_fault
              Node_addComponentSignature_fault)
    qed
  qed
  have first: "createNodeHierarchyWithDistinctSignature g type fullName signature = Inl NullPointer
           \<longleftrightarrow> (\<exists>node n. find (\<lambda>q. node_name (the (heap_nodes g q)) = fullName) (m_nodes g) = Some node
                      \<and> heap_nodes g node = Some n \<and> node_signature n = None)"
    if "\<forall>q\<in>set (m_nodes g). heap_nodes g q \<noteq> None"
    using iff getNode_first [OF that, of fullName] by simp
  have suff: "\<forall>p\<in>set (m_nodes g). \<forall>n. heap_nodes g p = Some n \<and> node_name n = fullName
           \<longrightarrow> node_signature n \<noteq> None \<Longrightarrow>
        \<not> (\<exists>node n. getNode g fullName = Inr (Some node) \<and> heap_nodes g node = Some n
                      \<and> node_signature n = None)"
    using find_if_Some [of "heap_nodes g" "\<lambda>n. node_name n = fullName" "m_nodes g"]
    by (fastforce simp: getNode_def findNode_def)
  from iff first suff show ?thesis by blast
qed

text \<open>
  In the graph of "a::b::c" the node "a" has no signature: the call faults. In the graph
  with the two nodes "f", both with a signature, it does not.
\<close>

theorem distinctSignature_null_component_witness:
  "map (\<lambda>q. map_option node_name (heap_nodes (graph_abc NODE_UNDEFINED) q)) (m_nodes (graph_abc NODE_UNDEFINED))
     = [Some ''a'', Some ''a::b'', Some ''a::b::c'']
   \<and> getNode (graph_abc NODE_UNDEFINED) ''a'' = Inr (Some 0)
   \<and> find (\<lambda>q. node_name (the (heap_nodes (graph_abc NODE_UNDEFINED) q)) = ''a'')
          (m_nodes (graph_abc NODE_UNDEFINED)) = Some 0
   \<and> map_option node_signature (heap_nodes (graph_abc NODE_UNDEFINED) 0) = Some None
   \<and> createNodeHierarchyWithDistinctSignature (graph_abc NODE_UNDEFINED) NODE_UNDEFINED ''a'' ''s''
       = Inl NullPointer
   \<and> map (\<lambda>p. map_option (\<lambda>n. (node_name n, node_signature n)) (heap_nodes graph_ff p)) (m_nodes graph_ff)
       = [Some (''f'', Some ''A''), Some (''f'', Some ''B'')]
   \<and> createNodeHierarchyWithDistinctSignature graph_ff NODE_UNDEFINED ''f'' ''A'' \<noteq> Inl NullPointer"
proof -
  have names: "map (\<lambda>q. map_option node_name (heap_nodes (graph_abc NODE_UNDEFINED) q))
      (m_nodes (graph_abc NODE_UNDEFINED)) = [Some ''a'', Some ''a::b'', Some ''a::b::c'']"
    by (simp add: graph_abc_def)
  have sigs: "map (\<lambda>p. map_option (\<lambda>n. (node_name n, node_signature n)) (heap_nodes graph_ff p))
      (m_nodes graph_ff) = [Some (''f'', Some ''A''), Some (''f'', Some ''B'')]"
    by (simp add: graph_ff_def)
  have live: "\<forall>q\<in>set (m_nodes (graph_abc NODE_UNDEFINED)). heap_nodes (graph_abc NODE_UNDEFINED) q \<noteq> None"
    by (simp add: graph_abc_def)
  have a: "getNode (graph_abc NODE_UNDEFINED) ''a'' = Inr (Some 0)"
    "find (\<lambda>q. node_name (the (heap_nodes (graph_abc NODE_UNDEFINED) q)) = ''a'')
          (m_nodes (graph_abc NODE_UNDEFINED)) = Some 0"
    "map_option node_signature (heap_nodes (graph_abc NODE_UNDEFINED) 0) = Some None"
    by (simp_all add: eval_defs graph_abc_def)
  then have "\<exists>node n. find (\<lambda>q. node_name (the (heap_nodes (graph_abc NODE_UNDEFINED) q)) = ''a'')
          (m_nodes (graph_abc NODE_UNDEFINED)) = Some node
      \<and> heap_nodes (graph_abc NODE_UNDEFINED) node = Some n \<and> node_signature n = None"
    by auto
  with live
    distinctSignature_null_component [of "graph_abc NODE_UNDEFINED" NODE_UNDEFINED "''a''" "''s''"]
  have b: "createNodeHierarchyWithDistinctSignature (graph_abc NODE_UNDEFINED) NODE_UNDEFINED ''a'' ''s''
       = Inl NullPointer"
    by blast
  have s: "\<forall>p\<in>set (m_nodes graph_ff). \<forall>n. heap_nodes graph_ff p = Some n \<and> node_name n = ''f''
           \<longrightarrow> node_signature n \<noteq> None"
    by (auto simp: graph_ff_def)
  with distinctSignature_null_component [of graph_ff NODE_UNDEFINED "''f''" "''A''"]
  have c: "createNodeHierarchyWithDistinctSignature graph_ff NODE_UNDEFINED ''f'' ''A'' \<noteq> Inl NullPointer"
    by blast
  from names a b sigs c show ?thesis by (simp only: simp_thms)
qed

text \<open>
  The claim as the specification words it fails. In \<open>graph_f_copy\<close> a node named f
  without a signature exists, but it is the second node of the name: the call reads the
  signature of the first one, finds "A", and returns that node with the graph unchanged.
\<close>

theorem distinctSignature_unsigned_second_not_read:
  "map (\<lambda>p. map_option (\<lambda>n. (node_name n, node_signature n)) (heap_nodes graph_f_copy p))
       (m_nodes graph_f_copy) = [Some (''f'', Some ''A''), Some (''f'', None)]
   \<and> createNodeHierarchyWithDistinctSignature graph_f_copy NODE_UNDEFINED ''f'' ''A''
       = Inr (graph_f_copy, Some 1)
   \<and> createNodeHierarchyWithDistinctSignature graph_f_copy NODE_UNDEFINED ''f'' ''A''
       \<noteq> Inl NullPointer"
  by (simp add: eval_defs graph_f_copy_def)

subsection \<open>Removing a node\<close>

lemma forEach_invariant:
  assumes "forEach func es g = Some (Inr g')" and "P g"
    and "\<And>e g1 g2. e \<in> set es \<Longrightarrow> P g1 \<Longrightarrow> func e g1 = Some (Inr g2) \<Longrightarrow> P g2"
  shows "P g'"
  using assms
proof (induction es arbitrary: g)
  case Nil
  then show ?case by simp
next
  case (Cons e es)
  from Cons.prems(1) obtain g1 where s: "func e g = Some (Inr g1)" and r: "forEach func es g1 = Some (Inr g')"
    by (auto split: option.splits sum.splits)
  from Cons.prems(3) [of e g g1] Cons.prems(2) s have p1: "P g1" by simp
  have st: "\<And>e' h1 h2. e' \<in> set es \<Longrightarrow> P h1 \<Longrightarrow> func e' h1 = Some (Inr h2) \<Longrightarrow> P h2"
    by (rule Cons.prems(3)) auto
  from Cons.IH [OF r p1 st] show ?case by simp
qed

lemma position_Some: "position xs p = Some i \<Longrightarrow> i < length xs \<and> xs ! i = p"
  by (induction xs arbitrary: i) (auto split: if_splits)

lemma erase_Nil: "erase [] i = []"
  by (simp add: erase_def)

lemma erase_Cons_0: "erase (x # xs) 0 = xs"
  by (simp add: erase_def)

lemma erase_Cons_Suc: "erase (x # xs) (Suc i) = x # erase xs i"
  by (simp add: erase_def)

lemma set_erase: "set (erase xs i) \<subseteq> set xs"
proof (induction xs arbitrary: i)
  case Nil
  then show ?case by (simp add: erase_Nil)
next
  case (Cons x xs)
  then show ?case by (cases i) (auto simp: erase_Cons_0 erase_Cons_Suc)
qed

lemma erase_remove1: "distinct xs \<Longrightarrow> i < length xs \<Longrightarrow> erase xs i = remove1 (xs ! i) xs"
proof (induction xs arbitrary: i)
  case Nil
  then show ?case by simp
next
  case (Cons x xs)
  then show ?case by (cases i) (auto simp: erase_Cons_0 erase_Cons_Suc)
qed

lemma erase_beyond: "length xs \<le> i \<Longrightarrow> erase xs i = xs"
  by (simp add: erase_def)

lemma distinct_erase: "distinct xs \<Longrightarrow> distinct (erase xs i)"
  by (cases "i < length xs") (simp_all add: erase_remove1 erase_beyond)

lemma erase_removes: "distinct xs \<Longrightarrow> i < length xs \<Longrightarrow> xs ! i \<notin> set (erase xs i)"
  by (simp add: erase_remove1)

lemma position_distinct: "distinct xs \<Longrightarrow> i < length xs \<Longrightarrow> position xs (xs ! i) = Some i"
proof (induction xs arbitrary: i)
  case Nil
  then show ?case by simp
next
  case (Cons x xs)
  then show ?case by (cases i) auto
qed




lemma Node_removeEdge_vectors:
  "Node_removeEdge g n e = Inr g' \<Longrightarrow> m_nodes g' = m_nodes g \<and> m_edges g' = m_edges g \<and> logged g' = logged g"
  by (auto simp: Node_removeEdge_def split: option.splits)

lemma Edge_delete_vectors:
  assumes "Edge_delete g e = Inr g'"
  shows "m_nodes g' = m_nodes g \<and> m_edges g' = m_edges g \<and> logged g' = logged g"
proof -
  from assms obtain x g1 g2 where "heap_edges g e = Some x"
    and a: "Node_removeEdge g (edge_from x) e = Inr g1"
    and b: "Node_removeEdge g1 (edge_to x) e = Inr g2"
    and c: "g' = g2\<lparr> heap_edges := (heap_edges g2)(e := None) \<rparr>"
    by (auto simp: Edge_delete_def split: option.splits sum.splits)
  from Node_removeEdge_vectors [OF a] Node_removeEdge_vectors [OF b] c show ?thesis by simp
qed


lemma removeEdgeInternal_m_nodes:
  assumes "removeEdgeInternal g e = Inr g'"
  shows "m_nodes g' = m_nodes g \<and> logged g' = logged g"
proof (cases "position (m_edges g) e")
  case None
  with assms show ?thesis by (simp add: removeEdgeInternal_def)
next
  case (Some it)
  with assms have "Edge_delete (g\<lparr> m_edges := erase (m_edges g) it \<rparr>) e = Inr g'"
    by (simp add: removeEdgeInternal_def)
  from Edge_delete_vectors [OF this] show ?thesis by simp
qed

lemma removeNode_finish_result:
  assumes "removeNode_finish g node it = Inr g'"
  shows "\<exists>n. heap_nodes g node = Some n \<and> it < length (m_nodes g) \<and> m_nodes g ! it = node
     \<and> m_nodes g' = erase (m_nodes g) it \<and> m_edges g' = m_edges g \<and> heap_nodes g' node = None
     \<and> logged g' = (if node_edges n = [] then logged g
                     else logged g @ [(ERROR, ''Node has still edges.'')])"
proof -
  from assms obtain n where n: "heap_nodes g node = Some n"
    by (cases "heap_nodes g node") (simp_all add: removeNode_finish_def)
  show ?thesis
  proof (cases "node_edges n = []")
    case True
    with assms n show ?thesis
      by (simp add: removeNode_finish_def Node_delete_def Let_def split: if_splits) auto
  next
    case False
    with assms n show ?thesis
      by (simp add: removeNode_finish_def Node_delete_def LOG_ERROR_def Let_def split: if_splits) auto
  qed
qed

lemma removeNode_Suc_found:
  assumes "removeNode (Suc k) g node = Some (Inr g')" and "position (m_nodes g) node = Some it"
  shows "\<exists>n members g2 n2 g4. heap_nodes g node = Some n
     \<and> edgesOfType (heap_edges g) EDGE_MEMBER (node_edges n) = Inr members
     \<and> forEach (visitMember k node) members g = Some (Inr g2)
     \<and> heap_nodes g2 node = Some n2
     \<and> forEach (\<lambda>e g3. Some (removeEdgeInternal g3 e)) (node_edges n2) g2 = Some (Inr g4)
     \<and> removeNode_finish g4 node it = Inr g'"
proof -
  from assms obtain n where n: "heap_nodes g node = Some n"
    by (cases "heap_nodes g node") simp_all
  from assms n obtain members where m: "edgesOfType (heap_edges g) EDGE_MEMBER (node_edges n) = Inr members"
    by (cases "edgesOfType (heap_edges g) EDGE_MEMBER (node_edges n)") simp_all
  from assms n m obtain g2 where c: "forEach (visitMember k node) members g = Some (Inr g2)"
    by (cases "forEach (visitMember k node) members g")
      (auto simp: visitMember_def split: sum.splits)
  from assms n m c obtain n2 where n2: "heap_nodes g2 node = Some n2"
    by (cases "heap_nodes g2 node") (simp_all add: visitMember_def)
  from assms n m c n2 obtain g4 where
    e: "forEach (\<lambda>e g3. Some (removeEdgeInternal g3 e)) (node_edges n2) g2 = Some (Inr g4)"
    by (cases "forEach (\<lambda>e g3. Some (removeEdgeInternal g3 e)) (node_edges n2) g2")
      (auto simp: visitMember_def split: sum.splits)
  from assms n m c n2 e have "removeNode_finish g4 node it = Inr g'"
    by (simp add: visitMember_def)
  with n m c n2 e show ?thesis by blast
qed


lemma visitMember_distinct:
  assumes "\<And>g node g'. removeNode k g node = Some (Inr g') \<Longrightarrow> distinct (m_nodes g) \<Longrightarrow> distinct (m_nodes g')"
    and "visitMember k node e g1 = Some (Inr g2)" and "distinct (m_nodes g1)"
  shows "distinct (m_nodes g2)"
proof (cases "heap_edges g1 e")
  case None
  with assms(2) show ?thesis by (simp add: visitMember_def)
next
  case (Some x)
  show ?thesis
  proof (cases "node = edge_from x")
    case True
    with Some assms(2) have "removeNode k g1 (edge_to x) = Some (Inr g2)"
      by (simp add: visitMember_def)
    from assms(1) [OF this assms(3)] show ?thesis .
  next
    case False
    with Some assms(2,3) show ?thesis by (simp add: visitMember_def)
  qed
qed

lemma removeNode_distinct:
  "removeNode k g node = Some (Inr g') \<Longrightarrow> distinct (m_nodes g) \<Longrightarrow> distinct (m_nodes g')"
proof (induction k arbitrary: g node g')
  case 0
  then show ?case by simp
next
  case (Suc k)
  show ?case
  proof (cases "position (m_nodes g) node")
    case None
    with Suc.prems show ?thesis by (auto simp: LOG_WARNING_def)
  next
    case (Some it)
    from removeNode_Suc_found [OF Suc.prems(1) Some] obtain n members g2 n2 g4 where
      "heap_nodes g node = Some n"
      and "edgesOfType (heap_edges g) EDGE_MEMBER (node_edges n) = Inr members"
      and c: "forEach (visitMember k node) members g = Some (Inr g2)"
      and "heap_nodes g2 node = Some n2"
      and e: "forEach (\<lambda>e g3. Some (removeEdgeInternal g3 e)) (node_edges n2) g2 = Some (Inr g4)"
      and f: "removeNode_finish g4 node it = Inr g'"
      by (elim exE conjE) (rule that)
    have "distinct (m_nodes g2)"
    proof (rule forEach_invariant [OF c, where P = "\<lambda>g. distinct (m_nodes g)"])
      show "distinct (m_nodes g)" by (rule Suc.prems(2))
    next
      fix e' g1 h2
      assume "visitMember k node e' g1 = Some (Inr h2)" and "distinct (m_nodes g1)"
      with Suc.IH show "distinct (m_nodes h2)" by (rule visitMember_distinct)
    qed
    then have "distinct (m_nodes g4)"
      by (rule forEach_invariant [OF e, where P = "\<lambda>g. distinct (m_nodes g)"])
        (simp add: removeEdgeInternal_m_nodes)
    with removeNode_finish_result [OF f] show ?thesis
      by (auto simp: distinct_erase)
  qed
qed

lemma removeNode_returned_through_finish:
  assumes "distinct (m_nodes g)" and "node \<in> set (m_nodes g)"
    and "removeNode k g node = Some (Inr g')"
  shows "\<exists>g4 n4 it. removeNode_finish g4 node it = Inr g' \<and> heap_nodes g4 node = Some n4
     \<and> logged g' = (if node_edges n4 = [] then logged g4
                     else logged g4 @ [(ERROR, ''Node has still edges.'')])
     \<and> m_nodes g' = erase (m_nodes g4) it \<and> m_nodes g4 ! it = node
     \<and> node \<notin> set (m_nodes g') \<and> heap_nodes g' node = None"
proof (cases k)
  case 0
  with assms(3) show ?thesis by simp
next
  case (Suc j)
  from assms(2) obtain it where it: "position (m_nodes g) node = Some it"
    by (cases "position (m_nodes g) node") (auto simp: position_None)
  from removeNode_Suc_found [OF assms(3) [unfolded Suc] it] obtain n members g2 n2 g4 where
    "heap_nodes g node = Some n"
    and "edgesOfType (heap_edges g) EDGE_MEMBER (node_edges n) = Inr members"
    and c: "forEach (visitMember j node) members g = Some (Inr g2)"
    and "heap_nodes g2 node = Some n2"
    and e: "forEach (\<lambda>e g3. Some (removeEdgeInternal g3 e)) (node_edges n2) g2 = Some (Inr g4)"
    and f: "removeNode_finish g4 node it = Inr g'"
    by (elim exE conjE) (rule that)
  have "distinct (m_nodes g2)"
  proof (rule forEach_invariant [OF c, where P = "\<lambda>g. distinct (m_nodes g)"])
    show "distinct (m_nodes g)" by (rule assms(1))
  next
    fix e' g1 h2
    assume "visitMember j node e' g1 = Some (Inr h2)" and "distinct (m_nodes g1)"
    with removeNode_distinct show "distinct (m_nodes h2)" by (rule visitMember_distinct)
  qed
  then have d4: "distinct (m_nodes g4)"
    by (rule forEach_invariant [OF e, where P = "\<lambda>g. distinct (m_nodes g)"])
      (simp add: removeEdgeInternal_m_nodes)
  from removeNode_finish_result [OF f] obtain n4 where
    r: "heap_nodes g4 node = Some n4" "it < length (m_nodes g4)" "m_nodes g4 ! it = node"
      "m_nodes g' = erase (m_nodes g4) it" "heap_nodes g' node = None"
      "logged g' = (if node_edges n4 = [] then logged g4
                     else logged g4 @ [(ERROR, ''Node has still edges.'')])"
    by blast
  from erase_removes [OF d4 r(2)] r(3,4) have "node \<notin> set (m_nodes g')" by simp
  with f r show ?thesis by blast
qed

lemma removeNode_finish_completes:
  assumes "heap_nodes g node = Some n" and "it < length (m_nodes g)" and "m_nodes g ! it = node"
  shows "removeNode_finish g node it =
     Inr (g\<lparr> m_nodes := erase (m_nodes g) it,
             heap_nodes := (heap_nodes g)(node := None),
             logged := (if node_edges n = [] then logged g
                        else logged g @ [(ERROR, ''Node has still edges.'')]) \<rparr>)"
  using assms by (simp add: removeNode_finish_def Node_delete_def LOG_ERROR_def Let_def)

lemma length_erase: "i < length xs \<Longrightarrow> length (erase xs i) + 1 = length xs"
  by (simp add: erase_def)

text \<open>
  C8. In a call of \<^verbatim>\<open>removeNode\<close> on a node of the graph, let \<open>g4\<close> be the state once
  the children and the incident edges have been removed (lines 146-159), with the node
  alive and the iterator \<open>it\<close> still on it. Then the call returns, whatever the node's
  index holds in \<open>g4\<close>: the error is logged exactly when the index is not empty, and in
  both cases the node is erased from \<^verbatim>\<open>m_nodes\<close> at \<open>it\<close> and destroyed; nothing else of the
  state changes.
\<close>

theorem removeNode_erases_whatever_the_check:
  assumes "position (m_nodes g) node = Some it"
    and "heap_nodes g node = Some n"
    and "edgesOfType (heap_edges g) EDGE_MEMBER (node_edges n) = Inr members"
    and "forEach (visitMember k node) members g = Some (Inr g2)"
    and "heap_nodes g2 node = Some n2"
    and "forEach (\<lambda>e g3. Some (removeEdgeInternal g3 e)) (node_edges n2) g2 = Some (Inr g4)"
    and "heap_nodes g4 node = Some n4"
    and "it < length (m_nodes g4)" and "m_nodes g4 ! it = node"
  shows "\<exists>g'. removeNode (Suc k) g node = Some (Inr g')
     \<and> removeNode_finish g4 node it = Inr g'
     \<and> g' = g4\<lparr> m_nodes := erase (m_nodes g4) it,
                 heap_nodes := (heap_nodes g4)(node := None),
                 logged := (if node_edges n4 = [] then logged g4
                            else logged g4 @ [(ERROR, ''Node has still edges.'')]) \<rparr>
     \<and> length (m_nodes g') + 1 = length (m_nodes g4)
     \<and> (distinct (m_nodes g) \<longrightarrow> node \<notin> set (m_nodes g'))"
proof -
  let ?g' = "g4\<lparr> m_nodes := erase (m_nodes g4) it,
                 heap_nodes := (heap_nodes g4)(node := None),
                 logged := (if node_edges n4 = [] then logged g4
                            else logged g4 @ [(ERROR, ''Node has still edges.'')]) \<rparr>"
  have fin: "removeNode_finish g4 node it = Inr ?g'"
    using assms(7-9) by (rule removeNode_finish_completes)
  have "removeNode (Suc k) g node = Some (removeNode_finish g4 node it)"
    using assms(1-6) [unfolded visitMember_def] by simp
  with fin have call: "removeNode (Suc k) g node = Some (Inr ?g')" by simp
  have len: "length (m_nodes ?g') + 1 = length (m_nodes g4)"
    using length_erase [OF assms(8)] by simp
  have dis: "node \<notin> set (m_nodes ?g')" if d: "distinct (m_nodes g)"
  proof -
    have "distinct (m_nodes g2)"
    proof (rule forEach_invariant [OF assms(4), where P = "\<lambda>g. distinct (m_nodes g)"])
      show "distinct (m_nodes g)" by (rule d)
    next
      fix e' g1 h2
      assume "visitMember k node e' g1 = Some (Inr h2)" and "distinct (m_nodes g1)"
      with removeNode_distinct show "distinct (m_nodes h2)" by (rule visitMember_distinct)
    qed
    then have d4: "distinct (m_nodes g4)"
      by (rule forEach_invariant [OF assms(6), where P = "\<lambda>g. distinct (m_nodes g)"])
        (simp add: removeEdgeInternal_m_nodes)
    from erase_removes [OF d4 assms(8)] assms(9) show ?thesis by simp
  qed
  from call fin len dis show ?thesis by blast
qed

text \<open>
  The node a of \<open>graph_shared\<close> has no child, and its index holds the other graph's edge,
  which \<^verbatim>\<open>removeEdgeInternal\<close> does not find in \<^verbatim>\<open>m_edges\<close>: the check fails, the error is
  logged, and a is erased.
\<close>

theorem removeNode_erases_whatever_the_check_witness:
  "position (m_nodes graph_shared) 0 = Some 0
   \<and> heap_nodes graph_shared 0 = Some \<lparr> node_id = 0, node_type = NODE_UNDEFINED, node_name = ''a'',
         node_edges = [2], node_signature = None \<rparr>
   \<and> edgesOfType (heap_edges graph_shared) EDGE_MEMBER [2] = Inr []
   \<and> forEach (visitMember 0 0) [] graph_shared = Some (Inr graph_shared)
   \<and> forEach (\<lambda>e g3. Some (removeEdgeInternal g3 e)) [2] graph_shared = Some (Inr graph_shared)
   \<and> distinct (m_nodes graph_shared)
   \<and> removeNode 1 graph_shared 0 =
       Some (Inr (graph_shared\<lparr> m_nodes := [], heap_nodes := (heap_nodes graph_shared)(0 := None),
                    logged := [(ERROR, ''Node has still edges.'')] \<rparr>))"
proof -
  let ?a = "\<lparr> node_id = 0, node_type = NODE_UNDEFINED, node_name = ''a'',
         node_edges = [2], node_signature = None \<rparr>"
  have h: "position (m_nodes graph_shared) 0 = Some 0"
    "heap_nodes graph_shared 0 = Some ?a"
    "edgesOfType (heap_edges graph_shared) EDGE_MEMBER (node_edges ?a) = Inr []"
    "forEach (visitMember 0 0) [] graph_shared = Some (Inr graph_shared)"
    "forEach (\<lambda>e g3. Some (removeEdgeInternal g3 e)) (node_edges ?a) graph_shared
       = Some (Inr graph_shared)"
    "0 < length (m_nodes graph_shared)" "m_nodes graph_shared ! 0 = 0"
    "distinct (m_nodes graph_shared)"
    by (simp_all add: graph_shared_def removeEdgeInternal_def)
  from removeNode_erases_whatever_the_check [OF h(1) h(2) h(3) h(4) h(2) h(5) h(2) h(6) h(7)]
  have "removeNode (Suc 0) graph_shared 0 =
       Some (Inr (graph_shared\<lparr> m_nodes := erase (m_nodes graph_shared) 0,
                    heap_nodes := (heap_nodes graph_shared)(0 := None),
                    logged := logged graph_shared @ [(ERROR, ''Node has still edges.'')] \<rparr>))"
    by (elim exE conjE) simp
  moreover have "erase (m_nodes graph_shared) 0 = []" "logged graph_shared = []"
    by (simp_all add: graph_shared_def erase_def)
  ultimately have "removeNode 1 graph_shared 0 =
       Some (Inr (graph_shared\<lparr> m_nodes := [], heap_nodes := (heap_nodes graph_shared)(0 := None),
                    logged := [(ERROR, ''Node has still edges.'')] \<rparr>))"
    by simp
  with h show ?thesis by simp
qed

subsection \<open>Plain copies\<close>

lemma find_if_append:
  "find_if h func (xs @ ys) =
     (case find_if h func xs of Inr None \<Rightarrow> find_if h func ys | r \<Rightarrow> r)"
  by (induction xs) (auto split: option.splits)

lemma find_if_heap_cong:
  "(\<And>p. p \<in> set ps \<Longrightarrow> h p = h' p) \<Longrightarrow> find_if h func ps = find_if h' func ps"
  by (induction ps) (auto split: option.splits)

lemma fresh_not_owned_node: "owned g \<Longrightarrow> fresh g \<Longrightarrow> next_ptr g \<notin> set (m_nodes g)"
  by (auto simp: owned_def fresh_def)

lemma fresh_not_owned_edge: "owned g \<Longrightarrow> fresh g \<Longrightarrow> next_ptr g \<notin> set (m_edges g)"
  by (auto simp: owned_def fresh_def)

lemma addNodeAsPlainCopy_existing:
  "heap_nodes g node = Some other \<Longrightarrow> getNodeById g (node_id other) = Inr (Some n) \<Longrightarrow>
     addNodeAsPlainCopy g node = Inr (g, n)"
  by (simp add: addNodeAsPlainCopy_def)

lemma addEdgeAsPlainCopy_existing:
  "heap_edges g edge = Some other \<Longrightarrow> getEdgeById g (edge_id other) = Inr (Some e) \<Longrightarrow>
     addEdgeAsPlainCopy g edge = Inr (g, e)"
  by (simp add: addEdgeAsPlainCopy_def)

lemma getNodeById_found:
  "getNodeById g i = Inr (Some n) \<Longrightarrow> n \<in> set (m_nodes g) \<and> map_option node_id (heap_nodes g n) = Some i"
  using find_if_Some [of "heap_nodes g" "\<lambda>n. node_id n = i" "m_nodes g" n]
  by (auto simp: getNodeById_def findNode_def)

lemma getEdgeById_found:
  "getEdgeById g i = Inr (Some e) \<Longrightarrow> e \<in> set (m_edges g) \<and> map_option edge_id (heap_edges g e) = Some i"
  using find_if_Some [of "heap_edges g" "\<lambda>n. edge_id n = i" "m_edges g" e]
  by (auto simp: getEdgeById_def findEdge_def)

lemma getNodeById_total: "owned g \<Longrightarrow> \<exists>r. getNodeById g i = Inr r"
  using find_if_live [of "m_nodes g" "heap_nodes g"] by (simp add: owned_def getNodeById_def findNode_def)

lemma getEdgeById_total: "owned g \<Longrightarrow> \<exists>r. getEdgeById g i = Inr r"
  using find_if_live [of "m_edges g" "heap_edges g"] by (simp add: owned_def getEdgeById_def findEdge_def)

lemma addNodeAsPlainCopy_new:
  "heap_nodes g node = Some other \<Longrightarrow> getNodeById g (node_id other) = Inr None \<Longrightarrow>
     addNodeAsPlainCopy g node = Inr (pushNodeCopy g other, next_ptr g)"
  by (simp add: addNodeAsPlainCopy_def Node_copy_def Node_alloc_def pushNodeCopy_def)

lemma pushNodeCopy_props:
  assumes "owned g" and "fresh g" and "getNodeById g (node_id other) = Inr None"
  shows "owned (pushNodeCopy g other)" and "fresh (pushNodeCopy g other)"
    and "getNodeById (pushNodeCopy g other) (node_id other) = Inr (Some (next_ptr g))"
    and "\<And>p x. heap_nodes g p = Some x \<Longrightarrow> heap_nodes (pushNodeCopy g other) p = Some x"
proof -
  have nf: "next_ptr g \<notin> set (m_nodes g)" by (rule fresh_not_owned_node [OF assms(1,2)])
  show "owned (pushNodeCopy g other)"
    using assms(1) by (auto simp: owned_def pushNodeCopy_def)
  show "fresh (pushNodeCopy g other)"
    using assms(2) by (auto simp: fresh_def pushNodeCopy_def)
  have "find_if ((heap_nodes g)(next_ptr g \<mapsto> other\<lparr> node_edges := [] \<rparr>)) (\<lambda>n. node_id n = node_id other) (m_nodes g)
      = find_if (heap_nodes g) (\<lambda>n. node_id n = node_id other) (m_nodes g)"
    using nf by (intro find_if_heap_cong) auto
  with assms(3) show "getNodeById (pushNodeCopy g other) (node_id other) = Inr (Some (next_ptr g))"
    by (simp add: getNodeById_def findNode_def pushNodeCopy_def find_if_append)
  fix p x assume "heap_nodes g p = Some x"
  with assms(2) show "heap_nodes (pushNodeCopy g other) p = Some x"
    by (auto simp: fresh_def pushNodeCopy_def)
qed

lemma addNodeAsPlainCopy_result:
  assumes "owned g" and "fresh g" and "heap_nodes g node = Some other"
  shows "\<exists>g1 r. addNodeAsPlainCopy g node = Inr (g1, r) \<and> owned g1 \<and> fresh g1
     \<and> getNodeById g1 (node_id other) = Inr (Some r)
     \<and> (\<forall>p x. heap_nodes g p = Some x \<longrightarrow> heap_nodes g1 p = Some x)
     \<and> heap_edges g1 = heap_edges g \<and> m_edges g1 = m_edges g
     \<and> set (m_nodes g) \<subseteq> set (m_nodes g1)
     \<and> (\<forall>n. getNodeById g (node_id other) = Inr (Some n) \<longrightarrow> g1 = g \<and> r = n)"
proof -
  from getNodeById_total [OF assms(1)] obtain r where r: "getNodeById g (node_id other) = Inr r" by blast
  show ?thesis
  proof (cases r)
    case None
    with r addNodeAsPlainCopy_new [OF assms(3)] pushNodeCopy_props [OF assms(1,2), of other]
    show ?thesis by (auto simp: pushNodeCopy_def)
  next
    case (Some n)
    with r addNodeAsPlainCopy_existing [OF assms(3)] assms show ?thesis by auto
  qed
qed


lemma Node_addEdge_result:
  assumes "heap_nodes g node = Some n"
  shows "Node_addEdge g node e
    = Inr (g\<lparr> heap_nodes := (heap_nodes g)(node \<mapsto> n\<lparr> node_edges := node_edges n @ [e] \<rparr>) \<rparr>)"
  using assms by (simp add: Node_addEdge_def)

lemma Edge_alloc_result:
  assumes "heap_nodes g (edge_from c) \<noteq> None" and "heap_nodes g (edge_to c) \<noteq> None"
  shows "\<exists>g3. Edge_alloc g c = Inr (g3, next_ptr g) \<and> m_nodes g3 = m_nodes g \<and> m_edges g3 = m_edges g
     \<and> heap_edges g3 = (heap_edges g)(next_ptr g \<mapsto> c) \<and> next_ptr g3 = next_ptr g + 1
     \<and> (\<forall>p. map_option node_id (heap_nodes g3 p) = map_option node_id (heap_nodes g p))"
proof -
  from assms obtain a where a: "heap_nodes g (edge_from c) = Some a" by auto
  define g1 where "g1 = g\<lparr> heap_edges := (heap_edges g)(next_ptr g \<mapsto> c), next_ptr := next_ptr g + 1 \<rparr>"
  define g2 where "g2 = g1\<lparr> heap_nodes := (heap_nodes g1)(edge_from c \<mapsto> a\<lparr> node_edges := node_edges a @ [next_ptr g] \<rparr>) \<rparr>"
  have s1: "Node_addEdge g1 (edge_from c) (next_ptr g) = Inr g2"
    using a by (simp add: Node_addEdge_def g1_def g2_def)
  from assms(2) have "heap_nodes g2 (edge_to c) \<noteq> None"
    by (simp add: g2_def g1_def)
  then obtain b where b: "heap_nodes g2 (edge_to c) = Some b"
    by (cases "heap_nodes g2 (edge_to c)") simp_all
  define g3 where "g3 = g2\<lparr> heap_nodes := (heap_nodes g2)(edge_to c \<mapsto> b\<lparr> node_edges := node_edges b @ [next_ptr g] \<rparr>) \<rparr>"
  have s2: "Node_addEdge g2 (edge_to c) (next_ptr g) = Inr g3"
    using b by (simp add: Node_addEdge_def g3_def)
  have r: "Edge_alloc g c = Inr (g3, next_ptr g)"
    using s1 s2 unfolding g1_def by (simp add: Edge_alloc_def Let_def)
  have ids: "\<forall>p. map_option node_id (heap_nodes g3 p) = map_option node_id (heap_nodes g p)"
    using a b by (auto simp: g3_def g2_def g1_def split: if_splits)
  from r ids show ?thesis by (auto simp: g3_def g2_def g1_def)
qed

lemma addEdgeAsPlainCopy_new:
  assumes "owned g" and "fresh g" and "heap_edges g edge = Some other"
    and "heap_nodes g (edge_from other) = Some nf" and "heap_nodes g (edge_to other) = Some nt"
    and "getEdgeById g (edge_id other) = Inr None"
  shows "\<exists>g1 r c. addEdgeAsPlainCopy g edge = Inr (g1, r) \<and> m_edges g1 = m_edges g @ [r]
     \<and> heap_edges g1 r = Some c \<and> edge_id c = edge_id other \<and> edge_type c = edge_type other
     \<and> edge_from c \<in> set (m_nodes g1) \<and> edge_to c \<in> set (m_nodes g1)
     \<and> map_option node_id (heap_nodes g1 (edge_from c)) = Some (node_id nf)
     \<and> map_option node_id (heap_nodes g1 (edge_to c)) = Some (node_id nt)
     \<and> (\<exists>ga gb. addNodeAsPlainCopy g (edge_from other) = Inr (ga, edge_from c)
            \<and> addNodeAsPlainCopy ga (edge_to other) = Inr (gb, edge_to c))
     \<and> getEdgeById g1 (edge_id other) = Inr (Some r)"
proof -
  from addNodeAsPlainCopy_result [OF assms(1,2,4)] obtain ga r1 where
    a: "addNodeAsPlainCopy g (edge_from other) = Inr (ga, r1)" "owned ga" "fresh ga"
      "getNodeById ga (node_id nf) = Inr (Some r1)"
      "\<forall>p x. heap_nodes g p = Some x \<longrightarrow> heap_nodes ga p = Some x"
      "heap_edges ga = heap_edges g" "m_edges ga = m_edges g"
    by (elim exE conjE)
  from a(5) assms(5) have nt: "heap_nodes ga (edge_to other) = Some nt" by simp
  from addNodeAsPlainCopy_result [OF a(2,3) nt] obtain gb r2 where
    b: "addNodeAsPlainCopy ga (edge_to other) = Inr (gb, r2)" "owned gb" "fresh gb"
      "getNodeById gb (node_id nt) = Inr (Some r2)"
      "\<forall>p x. heap_nodes ga p = Some x \<longrightarrow> heap_nodes gb p = Some x"
      "heap_edges gb = heap_edges ga" "m_edges gb = m_edges ga"
      "set (m_nodes ga) \<subseteq> set (m_nodes gb)"
    by (elim exE conjE)
  from getNodeById_found [OF a(4)] have r1: "r1 \<in> set (m_nodes ga)"
    "map_option node_id (heap_nodes ga r1) = Some (node_id nf)" by simp_all
  from getNodeById_found [OF b(4)] have r2: "r2 \<in> set (m_nodes gb)"
    "map_option node_id (heap_nodes gb r2) = Some (node_id nt)" by simp_all
  from r1 b(5,8) have r1b: "r1 \<in> set (m_nodes gb)"
    "map_option node_id (heap_nodes gb r1) = Some (node_id nf)" by auto
  define c where "c = other\<lparr> edge_from := r1, edge_to := r2 \<rparr>"
  from r1b r2 b(2) have live: "heap_nodes gb (edge_from c) \<noteq> None" "heap_nodes gb (edge_to c) \<noteq> None"
    by (auto simp: c_def owned_def)
  from Edge_alloc_result [OF live] obtain g3 where
    g3: "Edge_alloc gb c = Inr (g3, next_ptr gb)" "m_nodes g3 = m_nodes gb" "m_edges g3 = m_edges gb"
      "heap_edges g3 = (heap_edges gb)(next_ptr gb \<mapsto> c)"
      "\<forall>p. map_option node_id (heap_nodes g3 p) = map_option node_id (heap_nodes gb p)"
    by (elim exE conjE)
  define g1 where "g1 = g3\<lparr> m_edges := m_edges g3 @ [next_ptr gb] \<rparr>"
  have res: "addEdgeAsPlainCopy g edge = Inr (g1, next_ptr gb)"
    using assms(3,6) a(1) b(1) g3(1) by (simp add: addEdgeAsPlainCopy_def Edge_copy_def c_def g1_def)
  have nf: "next_ptr gb \<notin> set (m_edges gb)" by (rule fresh_not_owned_edge [OF b(2,3)])
  have "find_if ((heap_edges gb)(next_ptr gb \<mapsto> c)) (\<lambda>n. edge_id n = edge_id other) (m_edges gb)
      = find_if (heap_edges gb) (\<lambda>n. edge_id n = edge_id other) (m_edges gb)"
    using nf by (intro find_if_heap_cong) auto
  with assms(6) a(6,7) b(6,7) g3 have again: "getEdgeById g1 (edge_id other) = Inr (Some (next_ptr gb))"
    by (simp add: getEdgeById_def findEdge_def g1_def find_if_append c_def)
  show ?thesis
    using res again g3 r1b r2 a(1,7) b(1,7)
    by (intro exI [of _ g1] exI [of _ "next_ptr gb"] exI [of _ c])
      (simp add: g1_def c_def)
qed


text \<open>
  C7. In a state where the vectors own live objects and the allocator's addresses are
  free, \<^verbatim>\<open>addNodeAsPlainCopy\<close> of a live node returns a node of the graph with the
  source's id; when a node with that id was in the graph already, it returns that node and
  the state is unchanged; and a second call with any live source of the same id returns the
  same node and leaves the state as the first call left it. The same holds for
  \<^verbatim>\<open>addEdgeAsPlainCopy\<close> of a live edge between live nodes; when no edge with the id was
  in the graph, the copy keeps the id and the type, it is the one edge added, and its
  endpoints are the nodes of the graph that \<^verbatim>\<open>addNodeAsPlainCopy\<close> returns for the
  source's endpoints, first \<open>from\<close> and then \<open>to\<close>.
\<close>

theorem plainCopy_deduplicated_by_id:
  assumes "owned g" and "fresh g"
  shows "(\<forall>node other. heap_nodes g node = Some other \<longrightarrow>
            (\<exists>g1 r. addNodeAsPlainCopy g node = Inr (g1, r) \<and> r \<in> set (m_nodes g1)
               \<and> map_option node_id (heap_nodes g1 r) = Some (node_id other)
               \<and> (\<forall>n. getNodeById g (node_id other) = Inr (Some n) \<longrightarrow> g1 = g \<and> r = n)
               \<and> (\<forall>node' other'. heap_nodes g1 node' = Some other' \<and> node_id other' = node_id other
                     \<longrightarrow> addNodeAsPlainCopy g1 node' = Inr (g1, r))))
       \<and> (\<forall>edge other nf nt. heap_edges g edge = Some other
              \<and> heap_nodes g (edge_from other) = Some nf \<and> heap_nodes g (edge_to other) = Some nt \<longrightarrow>
            (\<exists>g1 r c. addEdgeAsPlainCopy g edge = Inr (g1, r) \<and> r \<in> set (m_edges g1)
               \<and> heap_edges g1 r = Some c \<and> edge_id c = edge_id other
               \<and> (\<forall>e. getEdgeById g (edge_id other) = Inr (Some e) \<longrightarrow> g1 = g \<and> r = e)
               \<and> (getEdgeById g (edge_id other) = Inr None \<longrightarrow>
                    m_edges g1 = m_edges g @ [r] \<and> edge_type c = edge_type other
                    \<and> edge_from c \<in> set (m_nodes g1) \<and> edge_to c \<in> set (m_nodes g1)
                    \<and> map_option node_id (heap_nodes g1 (edge_from c)) = Some (node_id nf)
                    \<and> map_option node_id (heap_nodes g1 (edge_to c)) = Some (node_id nt)
                    \<and> (\<exists>ga gb. addNodeAsPlainCopy g (edge_from other) = Inr (ga, edge_from c)
                          \<and> addNodeAsPlainCopy ga (edge_to other) = Inr (gb, edge_to c)))
               \<and> (\<forall>edge' other'. heap_edges g1 edge' = Some other' \<and> edge_id other' = edge_id other
                     \<longrightarrow> addEdgeAsPlainCopy g1 edge' = Inr (g1, r))))"
proof (intro conjI allI impI)
  fix node other
  assume h: "heap_nodes g node = Some other"
  from addNodeAsPlainCopy_result [OF assms h] obtain g1 r where
    a: "addNodeAsPlainCopy g node = Inr (g1, r)"
      "getNodeById g1 (node_id other) = Inr (Some r)"
      "\<forall>n. getNodeById g (node_id other) = Inr (Some n) \<longrightarrow> g1 = g \<and> r = n"
    by (elim exE conjE)
  from getNodeById_found [OF a(2)] have m: "r \<in> set (m_nodes g1)"
    "map_option node_id (heap_nodes g1 r) = Some (node_id other)" by simp_all
  have again: "\<forall>node' other'. heap_nodes g1 node' = Some other' \<and> node_id other' = node_id other
                     \<longrightarrow> addNodeAsPlainCopy g1 node' = Inr (g1, r)"
    using a(2) by (auto intro: addNodeAsPlainCopy_existing)
  from a(1,3) m again
  show "\<exists>g1 r. addNodeAsPlainCopy g node = Inr (g1, r) \<and> r \<in> set (m_nodes g1)
               \<and> map_option node_id (heap_nodes g1 r) = Some (node_id other)
               \<and> (\<forall>n. getNodeById g (node_id other) = Inr (Some n) \<longrightarrow> g1 = g \<and> r = n)
               \<and> (\<forall>node' other'. heap_nodes g1 node' = Some other' \<and> node_id other' = node_id other
                     \<longrightarrow> addNodeAsPlainCopy g1 node' = Inr (g1, r))"
    by (intro exI [of _ g1] exI [of _ r]) simp
next
  fix edge other nf nt
  assume h: "heap_edges g edge = Some other
              \<and> heap_nodes g (edge_from other) = Some nf \<and> heap_nodes g (edge_to other) = Some nt"
  let ?goal = "\<lambda>g1 r c. addEdgeAsPlainCopy g edge = Inr (g1, r) \<and> r \<in> set (m_edges g1)
               \<and> heap_edges g1 r = Some c \<and> edge_id c = edge_id other
               \<and> (\<forall>e. getEdgeById g (edge_id other) = Inr (Some e) \<longrightarrow> g1 = g \<and> r = e)
               \<and> (getEdgeById g (edge_id other) = Inr None \<longrightarrow>
                    m_edges g1 = m_edges g @ [r] \<and> edge_type c = edge_type other
                    \<and> edge_from c \<in> set (m_nodes g1) \<and> edge_to c \<in> set (m_nodes g1)
                    \<and> map_option node_id (heap_nodes g1 (edge_from c)) = Some (node_id nf)
                    \<and> map_option node_id (heap_nodes g1 (edge_to c)) = Some (node_id nt)
                    \<and> (\<exists>ga gb. addNodeAsPlainCopy g (edge_from other) = Inr (ga, edge_from c)
                          \<and> addNodeAsPlainCopy ga (edge_to other) = Inr (gb, edge_to c)))
               \<and> (\<forall>edge' other'. heap_edges g1 edge' = Some other' \<and> edge_id other' = edge_id other
                     \<longrightarrow> addEdgeAsPlainCopy g1 edge' = Inr (g1, r))"
  from getEdgeById_total [OF assms(1)] obtain ro where ro: "getEdgeById g (edge_id other) = Inr ro"
    by blast
  show "\<exists>g1 r c. ?goal g1 r c"
  proof (cases ro)
    case (Some e)
    from getEdgeById_found [OF ro [unfolded Some]] obtain c where
      c: "e \<in> set (m_edges g)" "heap_edges g e = Some c" "edge_id c = edge_id other"
      by auto
    have "?goal g e c"
      using h ro Some c by (auto intro: addEdgeAsPlainCopy_existing)
    then show ?thesis by blast
  next
    case None
    from h have h1: "heap_edges g edge = Some other" and h2: "heap_nodes g (edge_from other) = Some nf"
      and h3: "heap_nodes g (edge_to other) = Some nt" by simp_all
    from addEdgeAsPlainCopy_new [OF assms h1 h2 h3 ro [unfolded None]] obtain g1 r c where
      n: "addEdgeAsPlainCopy g edge = Inr (g1, r)" "m_edges g1 = m_edges g @ [r]"
        "heap_edges g1 r = Some c" "edge_id c = edge_id other" "edge_type c = edge_type other"
        "edge_from c \<in> set (m_nodes g1)" "edge_to c \<in> set (m_nodes g1)"
        "map_option node_id (heap_nodes g1 (edge_from c)) = Some (node_id nf)"
        "map_option node_id (heap_nodes g1 (edge_to c)) = Some (node_id nt)"
        "\<exists>ga gb. addNodeAsPlainCopy g (edge_from other) = Inr (ga, edge_from c)
            \<and> addNodeAsPlainCopy ga (edge_to other) = Inr (gb, edge_to c)"
        "getEdgeById g1 (edge_id other) = Inr (Some r)"
      by (elim exE conjE) (rule that, (assumption | blast)+)
    have again: "\<forall>edge' other'. heap_edges g1 edge' = Some other' \<and> edge_id other' = edge_id other
                     \<longrightarrow> addEdgeAsPlainCopy g1 edge' = Inr (g1, r)"
      using n(11) by (auto intro: addEdgeAsPlainCopy_existing)
    have "?goal g1 r c"
      using n(1-10) again ro None by simp
    then show ?thesis by blast
  qed
qed

text \<open>
  An empty graph and another graph's edge at 2 between its nodes at 0 and 1: the node copy
  is at 3 both times; the edge copy is at 5, between the copies at 3 and 4, both times.
\<close>

lemma graph_elsewhere_owned_fresh: "owned graph_elsewhere \<and> fresh graph_elsewhere"
  by (simp add: owned_def fresh_def graph_elsewhere_def)

lemma graph_elsewhere_copies:
  "(\<exists>g1. addNodeAsPlainCopy graph_elsewhere 0 = Inr (g1, 3) \<and> m_nodes g1 = [3]
       \<and> map_option node_id (heap_nodes g1 0) = Some 0)
   \<and> (\<exists>g1. addEdgeAsPlainCopy graph_elsewhere 2 = Inr (g1, 5) \<and> m_nodes g1 = [3, 4] \<and> m_edges g1 = [5]
       \<and> map_option (\<lambda>e. (edge_from e, edge_to e)) (heap_edges g1 5) = Some (3, 4)
       \<and> map_option edge_id (heap_edges g1 2) = Some 2)"
  by (simp add: graph_elsewhere_def eval_defs)

theorem plainCopy_deduplicated_by_id_witness:
  "owned graph_elsewhere \<and> fresh graph_elsewhere
   \<and> (\<exists>g1. addNodeAsPlainCopy graph_elsewhere 0 = Inr (g1, 3) \<and> m_nodes g1 = [3]
         \<and> addNodeAsPlainCopy g1 0 = Inr (g1, 3))
   \<and> (\<exists>g1. addEdgeAsPlainCopy graph_elsewhere 2 = Inr (g1, 5) \<and> m_nodes g1 = [3, 4] \<and> m_edges g1 = [5]
         \<and> map_option (\<lambda>e. (edge_from e, edge_to e)) (heap_edges g1 5) = Some (3, 4)
         \<and> addEdgeAsPlainCopy g1 2 = Inr (g1, 5))"
proof -
  have o: "owned graph_elsewhere" and f: "fresh graph_elsewhere"
    using graph_elsewhere_owned_fresh by simp_all
  note t = plainCopy_deduplicated_by_id [OF o f]
  from graph_elsewhere_copies obtain g1 where
    n: "addNodeAsPlainCopy graph_elsewhere 0 = Inr (g1, 3)" "m_nodes g1 = [3]"
      "map_option node_id (heap_nodes g1 0) = Some 0"
    by (elim exE conjE)
  from graph_elsewhere_copies obtain g2 where
    e: "addEdgeAsPlainCopy graph_elsewhere 2 = Inr (g2, 5)" "m_nodes g2 = [3, 4]" "m_edges g2 = [5]"
      "map_option (\<lambda>e. (edge_from e, edge_to e)) (heap_edges g2 5) = Some (3, 4)"
      "map_option edge_id (heap_edges g2 2) = Some 2"
    by (elim exE conjE)
  have h0: "heap_nodes graph_elsewhere 0 = Some \<lparr> node_id = 0, node_type = NODE_UNDEFINED,
      node_name = ''a'', node_edges = [2], node_signature = None \<rparr>"
    and h2: "heap_edges graph_elsewhere 2 = Some \<lparr> edge_id = 2, edge_type = EDGE_OTHER 0,
      edge_from = 0, edge_to = 1 \<rparr>"
    and h1: "heap_nodes graph_elsewhere 1 = Some \<lparr> node_id = 1, node_type = NODE_UNDEFINED,
      node_name = ''b'', node_edges = [2], node_signature = None \<rparr>"
    by (simp_all add: graph_elsewhere_def)
  from t h0 n have n2: "addNodeAsPlainCopy g1 0 = Inr (g1, 3)"
    by (elim conjE allE [of _ 0] allE [of _ "the (heap_nodes graph_elsewhere 0)"]) auto
  from t h2 h1 h0 e have e2: "addEdgeAsPlainCopy g2 2 = Inr (g2, 5)"
    by (elim conjE allE [of _ 2] allE [of _ "the (heap_edges graph_elsewhere 2)"]) auto
  from o f n n2 e e2 show ?thesis by blast
qed

subsection \<open>Removing a subtree\<close>

lemma position_in: "p \<in> set xs \<Longrightarrow> \<exists>i. position xs p = Some i"
  by (cases "position xs p") (auto simp: position_None)

lemma position_filter:
  "position xs a = Some i \<Longrightarrow> P a \<Longrightarrow>
     position (filter P xs) a = Some (length (filter P (take i xs)))"
proof (induction xs arbitrary: i)
  case Nil
  then show ?case by simp
next
  case (Cons x xs)
  show ?case
  proof (cases "x = a")
    case True
    with Cons.prems show ?thesis by simp
  next
    case False
    with Cons.prems obtain j where j: "position xs a = Some j" "i = Suc j" by auto
    from Cons.IH [OF j(1) Cons.prems(2)] False j(2) show ?thesis by simp
  qed
qed

lemma filter_take_mono:
  "i < j \<Longrightarrow> j \<le> length xs \<Longrightarrow> P (xs ! i) \<Longrightarrow>
     length (filter P (take i xs)) < length (filter P (take j xs))"
proof -
  assume a: "i < j" "j \<le> length xs" "P (xs ! i)"
  then have "take j xs = take i xs @ xs ! i # take (j - Suc i) (drop (Suc i) xs)"
    by (metis Cons_nth_drop_Suc Suc_diff_Suc add_diff_inverse_nat less_imp_le_nat less_le_trans
        not_less take_Suc_Cons take_add)
  with a(3) show ?thesis by simp
qed

lemma filter_take_all:
  "(\<And>y. y \<in> set (take i xs) \<Longrightarrow> P y) \<Longrightarrow> length (filter P (take i xs)) = length (take i xs)"
  by (simp add: filter_id_conv)

lemma position_take:
  "y \<in> set (take i xs) \<Longrightarrow> \<exists>j. position xs y = Some j \<and> j < i"
proof (induction xs arbitrary: i)
  case Nil
  then show ?case by simp
next
  case (Cons x xs)
  show ?case
  proof (cases i)
    case 0
    with Cons.prems show ?thesis by simp
  next
    case (Suc k)
    show ?thesis
    proof (cases "x = y")
      case True
      with Suc show ?thesis by simp
    next
      case False
      with Cons.prems Suc have "y \<in> set (take k xs)" by simp
      from Cons.IH [OF this] obtain j where "position xs y = Some j" "j < k" by blast
      with False Suc show ?thesis by simp
    qed
  qed
qed


subsection \<open>Removing edges\<close>

lemma filter_not_in_single: "filter (\<lambda>e'. \<not> (e' \<in> {e} \<and> Q e')) xs = (if \<forall>x\<in>set xs. x = e \<longrightarrow> \<not> Q x then xs else removeAll e xs)"
  by (induction xs) auto

lemma removeEdgeInternal_absent: "e \<notin> set (m_edges g) \<Longrightarrow> removeEdgeInternal g e = Inr g"
  by (simp add: removeEdgeInternal_def position_None [symmetric])

lemma Node_same_edges: "n\<lparr> node_edges := node_edges n \<rparr> = (n::Node)"
  by simp

lemma unlink_absent:
  assumes "E \<inter> set (m_edges g) = {}"
  shows "unlink E g = g"
proof -
  from assms have a: "\<And>e. \<not> (e \<in> E \<and> e \<in> set (m_edges g))" by auto
  have e1: "filter (\<lambda>e. e \<notin> E) (m_edges g) = m_edges g"
    using assms by (auto simp: filter_id_conv)
  have e2: "(\<lambda>p. if p \<in> set (m_nodes g)
                         then map_option (\<lambda>n. n\<lparr> node_edges :=
                                filter (\<lambda>e. \<not> (e \<in> E \<and> e \<in> set (m_edges g))) (node_edges n) \<rparr>)
                                (heap_nodes g p)
                         else heap_nodes g p) = heap_nodes g"
    by (rule ext) (simp add: a option.map_ident)
  have e3: "(\<lambda>e. if e \<in> E \<and> e \<in> set (m_edges g) then None else heap_edges g e) = heap_edges g"
    by (rule ext) (simp add: a)
  show ?thesis unfolding unlink_def e1 e2 e3 by simp
qed

lemma unlink_fields:
  "m_nodes (unlink E g) = m_nodes g"
  "m_edges (unlink E g) = filter (\<lambda>e. e \<notin> E) (m_edges g)"
  "next_ptr (unlink E g) = next_ptr g" "next_id (unlink E g) = next_id g"
  "logged (unlink E g) = logged g"
  "heap_edges (unlink E g) e = (if e \<in> E \<and> e \<in> set (m_edges g) then None else heap_edges g e)"
  "heap_nodes (unlink E g) p = (if p \<in> set (m_nodes g)
                         then map_option (\<lambda>n. n\<lparr> node_edges :=
                                filter (\<lambda>e. \<not> (e \<in> E \<and> e \<in> set (m_edges g))) (node_edges n) \<rparr>)
                                (heap_nodes g p)
                         else heap_nodes g p)"
  by (simp_all add: unlink_def)

lemma unlink_unlink: "unlink E2 (unlink E1 g) = unlink (E1 \<union> E2) g"
proof (rule Graph.equality)
  show "heap_nodes (unlink E2 (unlink E1 g)) = heap_nodes (unlink (E1 \<union> E2) g)"
  proof (rule ext)
    fix p
    show "heap_nodes (unlink E2 (unlink E1 g)) p = heap_nodes (unlink (E1 \<union> E2) g) p"
    proof (cases "heap_nodes g p")
      case None
      then show ?thesis by (simp add: unlink_fields)
    next
      case (Some n)
      have "filter (\<lambda>e. \<not> (e \<in> E2 \<and> e \<in> set (m_edges g) \<and> e \<notin> E1))
              (filter (\<lambda>e. \<not> (e \<in> E1 \<and> e \<in> set (m_edges g))) (node_edges n))
            = filter (\<lambda>e. \<not> ((e \<in> E1 \<or> e \<in> E2) \<and> e \<in> set (m_edges g))) (node_edges n)"
        unfolding filter_filter by (rule filter_cong [OF refl]) auto
      with Some show ?thesis by (simp add: unlink_fields)
    qed
  qed
  show "heap_edges (unlink E2 (unlink E1 g)) = heap_edges (unlink (E1 \<union> E2) g)"
    by (rule ext) (auto simp: unlink_fields)
  show "m_edges (unlink E2 (unlink E1 g)) = m_edges (unlink (E1 \<union> E2) g)"
    unfolding unlink_fields filter_filter by (rule filter_cong [OF refl]) auto
qed (simp_all add: unlink_fields unlink_def)


lemma touches_unlink:
  "\<not> (e \<in> E \<and> e \<in> set (m_edges g)) \<Longrightarrow> touches (unlink E g) D e = touches g D e"
  by (auto simp: touches_def unlink_fields)

lemma consistentD:
  assumes "consistent g"
  shows "distinct (m_nodes g)" and "distinct (m_edges g)"
    and "\<And>p. p \<in> set (m_nodes g) \<Longrightarrow> \<exists>n. heap_nodes g p = Some n
           \<and> set (node_edges n) = {e \<in> set (m_edges g). touches g {p} e}"
    and "\<And>e. e \<in> set (m_edges g) \<Longrightarrow> \<exists>x. heap_edges g e = Some x
           \<and> edge_from x \<in> set (m_nodes g) \<and> edge_to x \<in> set (m_nodes g)"
  using assms by (auto simp: consistent_def)

lemma consistent_unlink:
  assumes "consistent g"
  shows "consistent (unlink E g)"
  unfolding consistent_def
proof (intro conjI ballI)
  show "distinct (m_nodes (unlink E g))" "distinct (m_edges (unlink E g))"
    using consistentD(1,2) [OF assms] by (simp_all add: unlink_fields)
next
  fix p assume "p \<in> set (m_nodes (unlink E g))"
  then have p: "p \<in> set (m_nodes g)" by (simp add: unlink_fields)
  from consistentD(3) [OF assms p] obtain n where n: "heap_nodes g p = Some n"
    "set (node_edges n) = {e \<in> set (m_edges g). touches g {p} e}" by blast
  let ?n = "n\<lparr> node_edges := filter (\<lambda>e. \<not> (e \<in> E \<and> e \<in> set (m_edges g))) (node_edges n) \<rparr>"
  have "heap_nodes (unlink E g) p = Some ?n" using p n(1) by (simp add: unlink_fields)
  moreover have "set (node_edges ?n) = {e \<in> set (m_edges (unlink E g)). touches (unlink E g) {p} e}"
  proof -
    have "set (node_edges ?n) = {e \<in> set (m_edges g). touches g {p} e \<and> e \<notin> E}"
      using n(2) by auto
    also have "\<dots> = {e \<in> set (m_edges g). e \<notin> E \<and> touches (unlink E g) {p} e}"
      using touches_unlink [of _ E g "{p}"] by blast
    finally show ?thesis by (simp add: unlink_fields)
  qed
  ultimately show "\<exists>n. heap_nodes (unlink E g) p = Some n
      \<and> set (node_edges n) = {e \<in> set (m_edges (unlink E g)). touches (unlink E g) {p} e}"
    by blast
next
  fix e assume "e \<in> set (m_edges (unlink E g))"
  then have e: "e \<in> set (m_edges g)" "e \<notin> E" by (simp_all add: unlink_fields)
  from consistentD(4) [OF assms e(1)] e(2)
  show "\<exists>x. heap_edges (unlink E g) e = Some x
      \<and> edge_from x \<in> set (m_nodes (unlink E g)) \<and> edge_to x \<in> set (m_nodes (unlink E g))"
    by (simp add: unlink_fields)
qed

lemma filter_neq_absent: "p \<notin> set xs \<Longrightarrow> filter (\<lambda>x. x \<noteq> p) xs = xs"
  by (induction xs) auto

lemma filter_neq_removeAll: "filter (\<lambda>x. x \<noteq> p) xs = removeAll p xs"
  by (induction xs) auto

lemma erase_position_filter:
  assumes "distinct xs" and "position xs p = Some i"
  shows "erase xs i = filter (\<lambda>x. x \<noteq> p) xs"
proof -
  from position_Some [OF assms(2)] have "i < length xs" "xs ! i = p" by simp_all
  with erase_remove1 [OF assms(1), of i] have "erase xs i = remove1 p xs" by simp
  also have "\<dots> = filter (\<lambda>x. x \<noteq> p) xs"
    using assms(1) by (induction xs) (auto simp: filter_neq_absent)
  finally show ?thesis .
qed

lemma unlink_single_node:
  assumes "e \<in> set (m_edges g)"
  shows "heap_nodes (unlink {e} g) q = (if q \<in> set (m_nodes g)
          then map_option (\<lambda>n. n\<lparr> node_edges := removeAll e (node_edges n) \<rparr>) (heap_nodes g q)
          else heap_nodes g q)"
proof -
  have f: "\<And>n. filter (\<lambda>e'. \<not> (e' \<in> {e} \<and> e' \<in> set (m_edges g))) (node_edges n) = removeAll e (node_edges n)"
    using assms by (simp add: filter_neq_removeAll)
  show ?thesis by (simp only: unlink_fields f)
qed


lemma removeEdgeInternal_unlink:
  assumes "consistent g" and "e \<in> set (m_edges g)"
  shows "removeEdgeInternal g e = Inr (unlink {e} g)"
proof -
  from position_in [OF assms(2)] obtain it where it: "position (m_edges g) e = Some it" by blast
  from consistentD(4) [OF assms] obtain x where x: "heap_edges g e = Some x"
    "edge_from x \<in> set (m_nodes g)" "edge_to x \<in> set (m_nodes g)" by blast
  from consistentD(3) [OF assms(1) x(2)] obtain nf where nf: "heap_nodes g (edge_from x) = Some nf" by blast
  from consistentD(3) [OF assms(1) x(3)] obtain nt where nt: "heap_nodes g (edge_to x) = Some nt" by blast
  define g0 where "g0 = g\<lparr> m_edges := erase (m_edges g) it \<rparr>"
  define g1 where "g1 = g0\<lparr> heap_nodes := (heap_nodes g0)(edge_from x \<mapsto> nf\<lparr> node_edges := removeAll e (node_edges nf) \<rparr>) \<rparr>"
  define nt' where "nt' = (if edge_to x = edge_from x then nf\<lparr> node_edges := removeAll e (node_edges nf) \<rparr> else nt)"
  have nt': "heap_nodes g1 (edge_to x) = Some nt'"
    "nt' = (if edge_to x = edge_from x then nf\<lparr> node_edges := removeAll e (node_edges nf) \<rparr> else nt)"
    using nt by (simp_all add: g1_def g0_def nt'_def)
  define g2 where "g2 = g1\<lparr> heap_nodes := (heap_nodes g1)(edge_to x \<mapsto> nt'\<lparr> node_edges := removeAll e (node_edges nt') \<rparr>) \<rparr>"
  define g3 where "g3 = g2\<lparr> heap_edges := (heap_edges g2)(e := None) \<rparr>"
  have s1: "Node_removeEdge g0 (edge_from x) e = Inr g1"
    using nf by (simp add: Node_removeEdge_def g1_def g0_def)
  have s2: "Node_removeEdge g1 (edge_to x) e = Inr g2"
    using nt'(1) by (simp add: Node_removeEdge_def g2_def)
  have "heap_edges g0 e = Some x" using x(1) by (simp add: g0_def)
  with s1 s2 have "Edge_delete g0 e = Inr g3"
    by (simp add: Edge_delete_def g3_def)
  with it have r: "removeEdgeInternal g e = Inr g3"
    by (simp add: removeEdgeInternal_def g0_def)
  have "g3 = unlink {e} g"
  proof (rule Graph.equality)
    show "m_edges g3 = m_edges (unlink {e} g)"
      using erase_position_filter [OF consistentD(2) [OF assms(1)] it]
      by (simp add: g3_def g2_def g1_def g0_def unlink_fields)
    show "heap_edges g3 = heap_edges (unlink {e} g)"
      using assms(2) by (intro ext) (simp add: g3_def g2_def g1_def g0_def unlink_fields)
    show "heap_nodes g3 = heap_nodes (unlink {e} g)"
    proof (rule ext)
      fix q
      note u = unlink_single_node [OF assms(2)]
      have h3: "heap_nodes g3 = ((heap_nodes g)(edge_from x \<mapsto> nf\<lparr> node_edges := removeAll e (node_edges nf) \<rparr>))
          (edge_to x \<mapsto> nt'\<lparr> node_edges := removeAll e (node_edges nt') \<rparr>)"
        by (simp add: g3_def g2_def g1_def g0_def)
      show "heap_nodes g3 q = heap_nodes (unlink {e} g) q"
      proof (cases "q = edge_to x \<or> q = edge_from x")
        case True
        show ?thesis
        proof (cases "q = edge_to x")
          case to: True
          show ?thesis
          proof (cases "edge_to x = edge_from x")
            case True
            with to x nf nt'(2) show ?thesis
              by (simp add: h3 u)
          next
            case False
            with to x nt nt'(2) show ?thesis
              by (simp add: h3 u)
          qed
        next
          case False
          with True x nf show ?thesis
            by (simp add: h3 u)
        qed
      next
        case False
        show ?thesis
        proof (cases "q \<in> set (m_nodes g)")
          case q: True
          from consistentD(3) [OF assms(1) q] obtain n where n: "heap_nodes g q = Some n"
            "set (node_edges n) = {e \<in> set (m_edges g). touches g {q} e}" by blast
          from False x(1) n(2) have "e \<notin> set (node_edges n)" by (auto simp: touches_def)
          then have "removeAll e (node_edges n) = node_edges n" by simp
          with False q n(1) show ?thesis
            by (simp add: h3 u)
        next
          case q: False
          with False show ?thesis by (simp add: h3 u)
        qed
      qed
    qed
  qed (simp_all add: g3_def g2_def g1_def g0_def unlink_def)
  with r show ?thesis by simp
qed


lemma removeEdges_loop:
  "consistent g \<Longrightarrow>
     forEach (\<lambda>e g3. Some (removeEdgeInternal g3 e)) es g = Some (Inr (unlink (set es) g))"
proof (induction es arbitrary: g)
  case Nil
  then show ?case by (simp add: unlink_absent)
next
  case (Cons e es)
  have s: "removeEdgeInternal g e = Inr (unlink {e} g)"
  proof (cases "e \<in> set (m_edges g)")
    case True
    with Cons.prems show ?thesis by (rule removeEdgeInternal_unlink)
  next
    case False
    then show ?thesis by (simp add: removeEdgeInternal_absent unlink_absent)
  qed
  from Cons.IH [OF consistent_unlink [OF Cons.prems], of "{e}"]
  have "forEach (\<lambda>e g3. Some (removeEdgeInternal g3 e)) es (unlink {e} g)
      = Some (Inr (unlink (set (e # es)) g))"
    by (simp add: unlink_unlink)
  with s show ?case by simp
qed

lemma purge_fields:
  "m_nodes (purge D g) = filter (\<lambda>p. p \<notin> D) (m_nodes g)"
  "m_edges (purge D g) = filter (\<lambda>e. \<not> touches g D e) (m_edges g)"
  "next_ptr (purge D g) = next_ptr g" "next_id (purge D g) = next_id g"
  "logged (purge D g) = logged g"
  "heap_edges (purge D g) e = (if e \<in> set (m_edges g) \<and> touches g D e then None else heap_edges g e)"
  "heap_nodes (purge D g) p = (if p \<in> D then None
                         else if p \<in> set (m_nodes g)
                         then map_option (\<lambda>n. n\<lparr> node_edges :=
                                filter (\<lambda>e. \<not> (e \<in> set (m_edges g) \<and> touches g D e)) (node_edges n) \<rparr>)
                                (heap_nodes g p)
                         else heap_nodes g p)"
  by (simp_all add: purge_def)

lemma removeNode_tail:
  assumes "consistent g" and "heap_nodes g p = Some n" and "position (m_nodes g) p = Some it"
  shows "removeNode_finish (unlink (set (node_edges n)) g) p it = Inr (purge {p} g)"
proof -
  let ?E = "set (node_edges n)"
  let ?u = "unlink ?E g"
  from position_Some [OF assms(3)] have it: "it < length (m_nodes g)" "m_nodes g ! it = p" by simp_all
  then have p: "p \<in> set (m_nodes g)" by auto
  from consistentD(3) [OF assms(1) p] assms(2)
  have E: "?E = {e \<in> set (m_edges g). touches g {p} e}" by simp
  then have Eiff: "\<And>e. e \<in> ?E \<and> e \<in> set (m_edges g) \<longleftrightarrow> e \<in> set (m_edges g) \<and> touches g {p} e"
    by blast
  have empty: "filter (\<lambda>e. \<not> (e \<in> ?E \<and> e \<in> set (m_edges g))) (node_edges n) = []"
    using E by (auto simp: filter_empty_conv)
  have hp: "heap_nodes ?u p = Some (n\<lparr> node_edges := [] \<rparr>)"
    using p assms(2) by (simp only: unlink_fields if_True option.map empty)
  define r where "r = Node_delete (?u\<lparr> m_nodes := erase (m_nodes ?u) it \<rparr>) p"
  have fin: "removeNode_finish ?u p it = Inr r"
    using hp it by (simp add: removeNode_finish_def unlink_fields(1) r_def)
  have "r = purge {p} g"
  proof (rule Graph.equality)
    show "m_nodes r = m_nodes (purge {p} g)"
      using erase_position_filter [OF consistentD(1) [OF assms(1)] assms(3)]
      by (simp add: r_def Node_delete_def unlink_fields purge_fields)
    show "m_edges r = m_edges (purge {p} g)"
      unfolding r_def Node_delete_def purge_fields
      by (simp add: unlink_fields) (rule filter_cong [OF refl], use E in blast)
    show "heap_edges r = heap_edges (purge {p} g)"
    proof (rule ext)
      fix e show "heap_edges r e = heap_edges (purge {p} g) e"
        using Eiff [of e] by (simp add: r_def Node_delete_def unlink_fields purge_fields)
    qed
    show "heap_nodes r = heap_nodes (purge {p} g)"
    proof (rule ext)
      fix q
      have f: "\<And>m. filter (\<lambda>e. \<not> (e \<in> ?E \<and> e \<in> set (m_edges g))) (node_edges m)
          = filter (\<lambda>e. \<not> (e \<in> set (m_edges g) \<and> touches g {p} e)) (node_edges m)"
        by (rule filter_cong [OF refl]) (use Eiff in blast)
      have l: "heap_nodes r q = (if q = p then None else heap_nodes ?u q)"
        by (simp add: r_def Node_delete_def)
      show "heap_nodes r q = heap_nodes (purge {p} g) q"
        by (simp only: l unlink_fields f purge_fields singleton_iff)
    qed
  qed (simp_all add: r_def Node_delete_def unlink_fields purge_fields purge_def unlink_def)
  with fin show ?thesis by simp
qed


subsection \<open>Removing a set of nodes\<close>

lemma touches_purge:
  "touches (purge D g) D' e = (\<not> (e \<in> set (m_edges g) \<and> touches g D e) \<and> touches g D' e)"
  by (simp add: touches_def purge_fields)

lemma touches_Un: "touches g (A \<union> B) e = (touches g A e \<or> touches g B e)"
  by (auto simp: touches_def split: option.splits)

lemma is_member_purge:
  "is_member (purge D g) e = (\<not> (e \<in> set (m_edges g) \<and> touches g D e) \<and> is_member g e)"
  by (simp add: is_member_def purge_fields)

lemma Node_edges_update:
  "node_edges ((n::Node)\<lparr> node_edges := a \<rparr>) = a"
  "(n::Node)\<lparr> node_edges := a, node_edges := b \<rparr> = n\<lparr> node_edges := b \<rparr>"
  by simp_all

lemma purge_purge: "purge D2 (purge D1 g) = purge (D1 \<union> D2) g"
proof (rule Graph.equality)
  show "m_nodes (purge D2 (purge D1 g)) = m_nodes (purge (D1 \<union> D2) g)"
    unfolding purge_fields filter_filter by (rule filter_cong [OF refl]) simp
  show "m_edges (purge D2 (purge D1 g)) = m_edges (purge (D1 \<union> D2) g)"
    unfolding purge_fields filter_filter touches_purge touches_Un
    by (rule filter_cong [OF refl]) blast
  show "heap_edges (purge D2 (purge D1 g)) = heap_edges (purge (D1 \<union> D2) g)"
  proof (rule ext)
    fix e
    show "heap_edges (purge D2 (purge D1 g)) e = heap_edges (purge (D1 \<union> D2) g) e"
      by (auto simp: purge_fields touches_purge touches_Un)
  qed
  show "heap_nodes (purge D2 (purge D1 g)) = heap_nodes (purge (D1 \<union> D2) g)"
  proof (rule ext)
    fix p
    let ?F1 = "\<lambda>e. \<not> (e \<in> set (m_edges g) \<and> touches g D1 e)"
    let ?F2 = "\<lambda>e. \<not> (e \<in> set (m_edges (purge D1 g)) \<and> touches (purge D1 g) D2 e)"
    let ?F = "\<lambda>e. \<not> (e \<in> set (m_edges g) \<and> touches g (D1 \<union> D2) e)"
    have f: "\<And>xs. filter ?F2 (filter ?F1 xs) = filter ?F xs"
      unfolding filter_filter purge_fields touches_purge touches_Un
      by (rule filter_cong [OF refl]) auto
    have l: "heap_nodes (purge D2 (purge D1 g)) p =
        (if p \<in> D2 then None else if p \<in> set (m_nodes (purge D1 g))
         then map_option (\<lambda>n. n\<lparr> node_edges := filter ?F2 (node_edges n) \<rparr>) (heap_nodes (purge D1 g) p)
         else heap_nodes (purge D1 g) p)"
      by (simp only: purge_fields(7))
    have m: "heap_nodes (purge D1 g) p =
        (if p \<in> D1 then None else if p \<in> set (m_nodes g)
         then map_option (\<lambda>n. n\<lparr> node_edges := filter ?F1 (node_edges n) \<rparr>) (heap_nodes g p)
         else heap_nodes g p)"
      by (simp only: purge_fields(7))
    have r: "heap_nodes (purge (D1 \<union> D2) g) p =
        (if p \<in> D1 \<union> D2 then None else if p \<in> set (m_nodes g)
         then map_option (\<lambda>n. n\<lparr> node_edges := filter ?F (node_edges n) \<rparr>) (heap_nodes g p)
         else heap_nodes g p)"
      by (simp only: purge_fields(7))
    have c: "map_option (\<lambda>n. n\<lparr> node_edges := filter ?F2 (node_edges n) \<rparr>)
               (map_option (\<lambda>n. n\<lparr> node_edges := filter ?F1 (node_edges n) \<rparr>) (heap_nodes g p))
          = map_option (\<lambda>n. n\<lparr> node_edges := filter ?F (node_edges n) \<rparr>) (heap_nodes g p)"
      by (cases "heap_nodes g p") (simp_all only: option.map Node_edges_update f)
    show "heap_nodes (purge D2 (purge D1 g)) p = heap_nodes (purge (D1 \<union> D2) g) p"
      unfolding l m r using c by (simp add: purge_fields(1))
  qed
qed (simp_all add: purge_fields purge_def)

lemma consistent_purge:
  assumes "consistent g"
  shows "consistent (purge D g)"
  unfolding consistent_def
proof (intro conjI ballI)
  show "distinct (m_nodes (purge D g))" "distinct (m_edges (purge D g))"
    using consistentD(1,2) [OF assms] by (simp_all add: purge_fields)
next
  fix p assume "p \<in> set (m_nodes (purge D g))"
  then have p: "p \<in> set (m_nodes g)" "p \<notin> D" by (simp_all add: purge_fields)
  from consistentD(3) [OF assms p(1)] obtain n where n: "heap_nodes g p = Some n"
    "set (node_edges n) = {e \<in> set (m_edges g). touches g {p} e}" by blast
  let ?n = "n\<lparr> node_edges := filter (\<lambda>e. \<not> (e \<in> set (m_edges g) \<and> touches g D e)) (node_edges n) \<rparr>"
  have "heap_nodes (purge D g) p = Some ?n" using p n(1) by (simp add: purge_fields)
  moreover have "set (node_edges ?n) = {e \<in> set (m_edges (purge D g)). touches (purge D g) {p} e}"
  proof -
    have "set (node_edges ?n) = {e \<in> set (m_edges g). touches g {p} e \<and> \<not> touches g D e}"
      using n(2) by auto
    also have "\<dots> = {e \<in> set (m_edges g). \<not> touches g D e \<and> touches (purge D g) {p} e}"
      unfolding touches_purge by blast
    finally show ?thesis by (simp add: purge_fields)
  qed
  ultimately show "\<exists>n. heap_nodes (purge D g) p = Some n
      \<and> set (node_edges n) = {e \<in> set (m_edges (purge D g)). touches (purge D g) {p} e}"
    by blast
next
  fix e assume "e \<in> set (m_edges (purge D g))"
  then have e: "e \<in> set (m_edges g)" "\<not> touches g D e" by (simp_all add: purge_fields)
  from consistentD(4) [OF assms e(1)] obtain x where x: "heap_edges g e = Some x"
    "edge_from x \<in> set (m_nodes g)" "edge_to x \<in> set (m_nodes g)" by blast
  from e(2) x(1) have "edge_from x \<notin> D" "edge_to x \<notin> D" by (simp_all add: touches_def)
  with e x
  show "\<exists>x. heap_edges (purge D g) e = Some x
      \<and> edge_from x \<in> set (m_nodes (purge D g)) \<and> edge_to x \<in> set (m_nodes (purge D g))"
    by (simp add: purge_fields)
qed


subsection \<open>The membership hierarchy\<close>

lemma childrenI:
  "e \<in> set (m_edges g) \<Longrightarrow> heap_edges g e = Some x \<Longrightarrow> edge_type x = EDGE_MEMBER \<Longrightarrow>
     (edge_from x, edge_to x) \<in> children g"
  by (auto simp: children_def)

lemma childrenE:
  assumes "(a, b) \<in> children g"
  obtains e x where "e \<in> set (m_edges g)" and "heap_edges g e = Some x"
    and "edge_type x = EDGE_MEMBER" and "edge_from x = a" and "edge_to x = b"
  using assms by (auto simp: children_def)

lemma children_purge: "children (purge D g) = {(a, b) \<in> children g. a \<notin> D \<and> b \<notin> D}"
proof (intro set_eqI iffI)
  fix ab assume ab: "ab \<in> children (purge D g)"
  obtain a b where p: "ab = (a, b)" by (cases ab)
  from ab [unfolded p] obtain e x where e: "e \<in> set (m_edges (purge D g))"
    "heap_edges (purge D g) e = Some x" "edge_type x = EDGE_MEMBER" "edge_from x = a" "edge_to x = b"
    by (rule childrenE)
  from e(1) have m: "e \<in> set (m_edges g)" "\<not> touches g D e" by (simp_all add: purge_fields)
  with e(2) have x: "heap_edges g e = Some x" by (simp add: purge_fields)
  from m(2) x e(4,5) have "a \<notin> D" "b \<notin> D" by (auto simp: touches_def)
  moreover from childrenI [OF m(1) x e(3)] e(4,5) have "(a, b) \<in> children g" by simp
  ultimately show "ab \<in> {(a, b) \<in> children g. a \<notin> D \<and> b \<notin> D}" using p by simp
next
  fix ab assume ab: "ab \<in> {(a, b) \<in> children g. a \<notin> D \<and> b \<notin> D}"
  obtain a b where p: "ab = (a, b)" by (cases ab)
  from ab p have c: "(a, b) \<in> children g" and d: "a \<notin> D" "b \<notin> D" by simp_all
  from c obtain e x where e: "e \<in> set (m_edges g)"
    "heap_edges g e = Some x" "edge_type x = EDGE_MEMBER" "edge_from x = a" "edge_to x = b"
    by (rule childrenE)
  from e(2,4,5) d have t: "\<not> touches g D e" by (simp add: touches_def)
  with e(1) have "e \<in> set (m_edges (purge D g))" by (simp add: purge_fields)
  moreover from t e(2) have "heap_edges (purge D g) e = Some x" by (simp add: purge_fields)
  ultimately have "(edge_from x, edge_to x) \<in> children (purge D g)" using e(3) by (rule childrenI)
  with e(4,5) p show "ab \<in> children (purge D g)" by simp
qed

lemma closed_subtree: "closed g (subtree g c)"
  by (auto simp: closed_def subtree_def intro: rtrancl_into_rtrancl)

lemma closed_Un: "closed g A \<Longrightarrow> closed g B \<Longrightarrow> closed g (A \<union> B)"
  by (auto simp: closed_def)

lemma closed_empty: "closed g {}"
  by (simp add: closed_def)

lemma subtree_purge:
  assumes "closed g D" and "c \<notin> D"
  shows "subtree (purge D g) c = subtree g c - D"
proof (intro set_eqI iffI)
  fix y assume "y \<in> subtree (purge D g) c"
  then have "(c, y) \<in> (children (purge D g))\<^sup>*" by (simp add: subtree_def)
  then have "(c, y) \<in> (children g)\<^sup>* \<and> y \<notin> D"
  proof (induction rule: rtrancl_induct)
    case base
    from assms(2) show ?case by simp
  next
    case (step y z)
    from step.hyps(2) have "(y, z) \<in> children g" "z \<notin> D" by (simp_all add: children_purge)
    with step.IH show ?case by (auto intro: rtrancl_into_rtrancl)
  qed
  then show "y \<in> subtree g c - D" by (simp add: subtree_def)
next
  fix y assume "y \<in> subtree g c - D"
  then have "(c, y) \<in> (children g)\<^sup>*" and "y \<notin> D" by (simp_all add: subtree_def)
  then have "(c, y) \<in> (children (purge D g))\<^sup>*"
  proof (induction rule: rtrancl_induct)
    case base
    show ?case by simp
  next
    case (step y z)
    from step.hyps(2) step.prems assms(1) have "y \<notin> D" by (auto simp: closed_def)
    with step.hyps(2) step.prems have "(y, z) \<in> children (purge D g)" by (simp add: children_purge)
    with step.IH [OF \<open>y \<notin> D\<close>] show ?case by (rule rtrancl_into_rtrancl)
  qed
  then show "y \<in> subtree (purge D g) c" by (simp add: subtree_def)
qed

lemma subtree_self: "p \<in> subtree g p"
  by (simp add: subtree_def)

lemma subtree_child: "(p, c) \<in> children g \<Longrightarrow> subtree g c \<subseteq> subtree g p"
  by (auto simp: subtree_def intro: converse_rtrancl_into_rtrancl)

lemma subtree_unfold: "subtree g p = insert p (\<Union>c\<in>{c. (p, c) \<in> children g}. subtree g c)"
proof (intro set_eqI iffI)
  fix y assume "y \<in> subtree g p"
  then have "(p, y) \<in> (children g)\<^sup>*" by (simp add: subtree_def)
  then show "y \<in> insert p (\<Union>c\<in>{c. (p, c) \<in> children g}. subtree g c)"
    by (cases rule: converse_rtranclE) (auto simp: subtree_def)
next
  fix y assume "y \<in> insert p (\<Union>c\<in>{c. (p, c) \<in> children g}. subtree g c)"
  then show "y \<in> subtree g p" using subtree_self subtree_child by blast
qed

lemma children_in_nodes:
  assumes "consistent g" and "(a, b) \<in> children g"
  shows "a \<in> set (m_nodes g) \<and> b \<in> set (m_nodes g)"
proof -
  from assms(2) obtain e x where e: "e \<in> set (m_edges g)"
    "heap_edges g e = Some x" "edge_from x = a" "edge_to x = b"
    by (rule childrenE)
  from consistentD(4) [OF assms(1) e(1)] e(2,3,4) show ?thesis by auto
qed

lemma subtree_in_nodes:
  assumes "consistent g" and "p \<in> set (m_nodes g)"
  shows "subtree g p \<subseteq> set (m_nodes g)"
proof
  fix y assume "y \<in> subtree g p"
  then have "(p, y) \<in> (children g)\<^sup>*" by (simp add: subtree_def)
  then show "y \<in> set (m_nodes g)"
    by (induction rule: rtrancl_induct) (use assms children_in_nodes in auto)
qed

lemma hierarchyD:
  assumes "hierarchy g"
  shows "consistent g"
    and "\<And>p n. p \<in> set (m_nodes g) \<Longrightarrow> heap_nodes g p = Some n
           \<Longrightarrow> distinct (filter (is_member g) (node_edges n))"
    and "\<And>e x. e \<in> set (m_edges g) \<Longrightarrow> heap_edges g e = Some x \<Longrightarrow> edge_type x = EDGE_MEMBER
           \<Longrightarrow> \<exists>i j. position (m_nodes g) (edge_from x) = Some i
                    \<and> position (m_nodes g) (edge_to x) = Some j \<and> i < j"
    and "\<And>e e' x x'. e \<in> set (m_edges g) \<Longrightarrow> e' \<in> set (m_edges g) \<Longrightarrow>
           heap_edges g e = Some x \<Longrightarrow> heap_edges g e' = Some x' \<Longrightarrow>
           edge_type x = EDGE_MEMBER \<Longrightarrow> edge_type x' = EDGE_MEMBER \<Longrightarrow> edge_to x = edge_to x'
           \<Longrightarrow> e = e'"
  using assms unfolding hierarchy_def by blast+

lemma children_ordered:
  assumes "hierarchy g" and "(a, b) \<in> children g"
  shows "\<exists>i j. position (m_nodes g) a = Some i \<and> position (m_nodes g) b = Some j \<and> i < j"
proof -
  from assms(2) obtain e x where e: "e \<in> set (m_edges g)"
    "heap_edges g e = Some x" "edge_type x = EDGE_MEMBER" "edge_from x = a" "edge_to x = b"
    by (rule childrenE)
  from hierarchyD(3) [OF assms(1) e(1,2,3)] e(4,5) show ?thesis by simp
qed

lemma subtree_ordered:
  assumes "hierarchy g" and "y \<in> subtree g c" and "position (m_nodes g) c = Some i"
  shows "\<exists>j. position (m_nodes g) y = Some j \<and> i \<le> j"
proof -
  from assms(2) have "(c, y) \<in> (children g)\<^sup>*" by (simp add: subtree_def)
  then show ?thesis
  proof (induction rule: rtrancl_induct)
    case base
    from assms(3) show ?case by simp
  next
    case (step y z)
    from children_ordered [OF assms(1) step.hyps(2)] step.IH show ?case by force
  qed
qed


lemma hierarchy_purge:
  assumes "hierarchy g"
  shows "hierarchy (purge D g)"
  unfolding hierarchy_def
proof (intro conjI ballI allI impI)
  show "consistent (purge D g)"
    by (rule consistent_purge [OF hierarchyD(1) [OF assms]])
next
  fix p n assume p: "p \<in> set (m_nodes (purge D g))" and n: "heap_nodes (purge D g) p = Some n"
  from p have pg: "p \<in> set (m_nodes g)" "p \<notin> D" by (simp_all add: purge_fields)
  let ?F = "\<lambda>e. \<not> (e \<in> set (m_edges g) \<and> touches g D e)"
  from consistentD(3) [OF hierarchyD(1) [OF assms] pg(1)] obtain m where m: "heap_nodes g p = Some m"
    by blast
  with n pg have e: "node_edges n = filter ?F (node_edges m)" by (auto simp: purge_fields)
  have eq: "filter (is_member (purge D g)) (filter ?F (node_edges m))
      = filter ?F (filter (is_member g) (node_edges m))"
    unfolding filter_filter is_member_purge by (rule filter_cong [OF refl]) blast
  have "distinct (filter ?F (filter (is_member g) (node_edges m)))"
    using hierarchyD(2) [OF assms pg(1) m] by (rule distinct_filter)
  then show "distinct (filter (is_member (purge D g)) (node_edges n))"
    by (simp only: e eq)
next
  fix e x assume e: "e \<in> set (m_edges (purge D g))"
    and x: "heap_edges (purge D g) e = Some x \<and> edge_type x = EDGE_MEMBER"
  from e have eg: "e \<in> set (m_edges g)" "\<not> touches g D e" by (simp_all add: purge_fields)
  with x have xg: "heap_edges g e = Some x" "edge_type x = EDGE_MEMBER" by (simp_all add: purge_fields)
  from eg(2) xg(1) have nd: "edge_from x \<notin> D" "edge_to x \<notin> D" by (simp_all add: touches_def)
  from hierarchyD(3) [OF assms eg(1) xg] obtain i j where
    ij: "position (m_nodes g) (edge_from x) = Some i" "position (m_nodes g) (edge_to x) = Some j" "i < j"
    by blast
  from position_Some [OF ij(1)] position_Some [OF ij(2)]
  have b: "m_nodes g ! i = edge_from x" "j \<le> length (m_nodes g)" by simp_all
  from nd(1) b(1) have "m_nodes g ! i \<notin> D" by simp
  from filter_take_mono [of i j "m_nodes g" "\<lambda>p. p \<notin> D", OF ij(3) b(2) this]
    position_filter [OF ij(1), of "\<lambda>p. p \<notin> D"] position_filter [OF ij(2), of "\<lambda>p. p \<notin> D"] nd
  show "\<exists>i j. position (m_nodes (purge D g)) (edge_from x) = Some i
      \<and> position (m_nodes (purge D g)) (edge_to x) = Some j \<and> i < j"
    by (simp add: purge_fields)
next
  fix e e' x x'
  assume e: "e \<in> set (m_edges (purge D g))" and e': "e' \<in> set (m_edges (purge D g))"
    and x: "heap_edges (purge D g) e = Some x \<and> heap_edges (purge D g) e' = Some x'
           \<and> edge_type x = EDGE_MEMBER \<and> edge_type x' = EDGE_MEMBER \<and> edge_to x = edge_to x'"
  from e e' have eg: "e \<in> set (m_edges g)" "\<not> touches g D e" "e' \<in> set (m_edges g)" "\<not> touches g D e'"
    by (simp_all add: purge_fields)
  with x have "heap_edges g e = Some x" "heap_edges g e' = Some x'" by (simp_all add: purge_fields)
  with hierarchyD(4) [OF assms eg(1,3)] x show "e = e'" by blast
qed

lemma purge_empty: "purge {} g = g"
proof -
  have t: "\<And>e. touches g {} e = False" by (simp add: touches_def split: option.splits)
  have n: "(\<lambda>p. if p \<in> {} then None
                         else if p \<in> set (m_nodes g)
                         then map_option (\<lambda>n. n\<lparr> node_edges :=
                                filter (\<lambda>e. \<not> (e \<in> set (m_edges g) \<and> touches g {} e)) (node_edges n) \<rparr>)
                                (heap_nodes g p)
                         else heap_nodes g p) = heap_nodes g"
    by (rule ext) (simp add: t option.map_ident)
  show ?thesis unfolding purge_def n by (simp add: t)
qed

lemma edgesOfType_live:
  "\<forall>e\<in>set es. heap_edges g e \<noteq> None \<Longrightarrow>
     edgesOfType (heap_edges g) EDGE_MEMBER es = Inr (filter (is_member g) es)"
  by (induction es) (auto simp: is_member_def)


lemma below_Nil: "below g p [] = {}"
  by (simp add: below_def)

lemma below_Cons:
  "below g p (e # es) = (case heap_edges g e of
                            None \<Rightarrow> {}
                          | Some x \<Rightarrow> if p = edge_from x then subtree g (edge_to x) else {})
                        \<union> below g p es"
  by (simp add: below_def)

lemma closed_below: "closed g (below g p es)"
proof (induction es)
  case Nil
  show ?case by (simp add: below_Nil closed_empty)
next
  case (Cons e es)
  then show ?case
    by (auto simp: below_Cons closed_subtree closed_empty intro!: closed_Un split: option.splits)
qed

lemma not_in_child_subtree:
  assumes "hierarchy g" and "(p, c) \<in> children g"
  shows "p \<notin> subtree g c"
proof
  assume "p \<in> subtree g c"
  from children_ordered [OF assms] obtain i j where
    ij: "position (m_nodes g) p = Some i" "position (m_nodes g) c = Some j" "i < j" by blast
  from subtree_ordered [OF assms(1) \<open>p \<in> subtree g c\<close> ij(2)] ij(1,3) show False by simp
qed

lemma sibling_untouched:
  assumes "hierarchy g"
    and "e \<in> set (m_edges g)" and "heap_edges g e = Some x" and "edge_type x = EDGE_MEMBER"
    and "edge_from x = p"
    and "e' \<in> set (m_edges g)" and "heap_edges g e' = Some x'" and "edge_type x' = EDGE_MEMBER"
    and "e' \<noteq> e" and "edge_from x' = p \<or> edge_to x' = p"
  shows "\<not> touches g (subtree g (edge_to x)) e'"
proof -
  let ?c = "edge_to x"
  from childrenI [OF assms(2,3,4)] assms(5) have pc: "(p, ?c) \<in> children g" by simp
  from not_in_child_subtree [OF assms(1) pc] have A: "p \<notin> subtree g ?c" .
  from children_ordered [OF assms(1) pc] obtain i j where
    ij: "position (m_nodes g) p = Some i" "position (m_nodes g) ?c = Some j" "i < j" by blast
  have "edge_from x' \<notin> subtree g ?c"
  proof
    assume in_s: "edge_from x' \<in> subtree g ?c"
    with A assms(10) have tp: "edge_to x' = p" by auto
    from hierarchyD(3) [OF assms(1,6,7,8)] tp ij(1) obtain k where
      k: "position (m_nodes g) (edge_from x') = Some k" "k < i" by auto
    from subtree_ordered [OF assms(1) in_s ij(2)] k ij(3) show False by simp
  qed
  moreover have "edge_to x' \<notin> subtree g ?c"
  proof
    assume in_s: "edge_to x' \<in> subtree g ?c"
    with A assms(10) have fr: "edge_from x' = p" by auto
    from hierarchyD(4) [OF assms(1,6,2,7,3,8,4)] assms(9) have ne: "edge_to x' \<noteq> ?c" by blast
    from in_s have "(?c, edge_to x') \<in> (children g)\<^sup>*" by (simp add: subtree_def)
    with ne obtain y where y: "(?c, y) \<in> (children g)\<^sup>*" "(y, edge_to x') \<in> children g"
      by (auto elim: rtranclE)
    from y(2) obtain e2 x2 where e2: "e2 \<in> set (m_edges g)" "heap_edges g e2 = Some x2"
      "edge_type x2 = EDGE_MEMBER" "edge_from x2 = y" "edge_to x2 = edge_to x'"
      by (rule childrenE)
    from hierarchyD(4) [OF assms(1) e2(1) assms(6) e2(2) assms(7) e2(3) assms(8) e2(5)]
    have "e2 = e'" .
    with e2(2,4) assms(7) fr have "y = p" by simp
    with y(1) A show False by (simp add: subtree_def)
  qed
  ultimately show ?thesis using assms(7) by (simp add: touches_def)
qed

lemma finite_subtree:
  assumes "consistent g" and "p \<in> set (m_nodes g)"
  shows "finite (subtree g p)"
  using subtree_in_nodes [OF assms] by (rule finite_subset) simp

lemma child_subtree_smaller:
  assumes "hierarchy g" and "(p, c) \<in> children g"
  shows "card (subtree g c - D) < card (subtree g p)"
proof -
  from children_in_nodes [OF hierarchyD(1) [OF assms(1)] assms(2)]
  have p: "p \<in> set (m_nodes g)" by simp
  have "subtree g c - D \<subseteq> subtree g p - {p}"
    using subtree_child [OF assms(2)] not_in_child_subtree [OF assms] by auto
  moreover have "subtree g p - {p} \<subset> subtree g p" using subtree_self by blast
  ultimately have "subtree g c - D \<subset> subtree g p" by blast
  with finite_subtree [OF hierarchyD(1) [OF assms(1)] p] show ?thesis
    by (rule psubset_card_mono)
qed


lemma is_memberE:
  assumes "is_member g e"
  obtains x where "heap_edges g e = Some x" and "edge_type x = EDGE_MEMBER"
  using assms by (auto simp: is_member_def split: option.splits)

lemma touches_singleE:
  assumes "touches g {p} e" and "heap_edges g e = Some x"
  shows "edge_from x = p \<or> edge_to x = p"
  using assms by (simp add: touches_def)

lemma children_loop:
  assumes h: "hierarchy g"
    and IH: "\<And>g' c. hierarchy g' \<Longrightarrow> c \<in> set (m_nodes g') \<Longrightarrow> card (subtree g' c) \<le> j \<Longrightarrow>
               removeNode j g' c = Some (Inr (purge (subtree g' c) g'))"
    and fuel: "card (subtree g p) \<le> Suc j"
  shows "distinct es \<Longrightarrow>
     \<forall>e\<in>set es. e \<in> set (m_edges g) \<and> is_member g e \<and> touches g {p} e \<Longrightarrow>
     closed g D \<Longrightarrow> \<forall>e\<in>set es. \<not> touches g D e \<Longrightarrow>
     forEach (visitMember j p) es (purge D g) = Some (Inr (purge (D \<union> below g p es) g))"
proof (induction es arbitrary: D)
  case Nil
  show ?case by (simp add: below_Nil)
next
  case (Cons e es)
  from Cons.prems(2) have e: "e \<in> set (m_edges g)" "is_member g e" "touches g {p} e" by simp_all
  from e(2) obtain x where x: "heap_edges g e = Some x" "edge_type x = EDGE_MEMBER"
    by (rule is_memberE)
  from Cons.prems(4) have nt: "\<not> touches g D e" by simp
  then have xp: "heap_edges (purge D g) e = Some x" using x(1) by (simp add: purge_fields)
  from Cons.prems(1) have d: "distinct es" "e \<notin> set es" by simp_all
  from Cons.prems(2) have r: "\<forall>e\<in>set es. e \<in> set (m_edges g) \<and> is_member g e \<and> touches g {p} e"
    by simp
  show ?case
  proof (cases "p = edge_from x")
    case False
    with xp have v: "visitMember j p e (purge D g) = Some (Inr (purge D g))"
      by (simp add: visitMember_def)
    from Cons.prems(4) have "\<forall>e\<in>set es. \<not> touches g D e" by simp
    from Cons.IH [OF d(1) r Cons.prems(3) this] v False x(1) show ?thesis
      by (simp add: below_Cons)
  next
    case True
    let ?c = "edge_to x"
    from childrenI [OF e(1) x] True have pc: "(p, ?c) \<in> children g" by simp
    from children_in_nodes [OF hierarchyD(1) [OF h] pc] have cg: "?c \<in> set (m_nodes g)" by simp
    from nt x(1) have cD: "?c \<notin> D" by (simp add: touches_def)
    from cg cD have cp: "?c \<in> set (m_nodes (purge D g))" by (simp add: purge_fields)
    have st: "subtree (purge D g) ?c = subtree g ?c - D"
      by (rule subtree_purge [OF Cons.prems(3) cD])
    from child_subtree_smaller [OF h pc, of D] fuel have "card (subtree (purge D g) ?c) \<le> j"
      by (simp add: st)
    from IH [OF hierarchy_purge [OF h] cp this]
    have "removeNode j (purge D g) ?c = Some (Inr (purge (D \<union> (subtree g ?c - D)) g))"
      by (simp add: st purge_purge)
    moreover have "D \<union> (subtree g ?c - D) = D \<union> subtree g ?c" by blast
    ultimately have v: "visitMember j p e (purge D g) = Some (Inr (purge (D \<union> subtree g ?c) g))"
      using xp True by (simp add: visitMember_def)
    have cl: "closed g (D \<union> subtree g ?c)"
      by (rule closed_Un [OF Cons.prems(3) closed_subtree])
    have un: "\<forall>e'\<in>set es. \<not> touches g (D \<union> subtree g ?c) e'"
    proof
      fix e' assume m: "e' \<in> set es"
      with r have e': "e' \<in> set (m_edges g)" "is_member g e'" "touches g {p} e'" by simp_all
      from e'(2) obtain x' where x': "heap_edges g e' = Some x'" "edge_type x' = EDGE_MEMBER"
        by (rule is_memberE)
      from m d(2) have ne: "e' \<noteq> e" by blast
      from sibling_untouched [OF h e(1) x True [symmetric] e'(1) x' ne touches_singleE [OF e'(3) x'(1)]]
        Cons.prems(4) m
      show "\<not> touches g (D \<union> subtree g ?c) e'" by (simp add: touches_Un)
    qed
    have "D \<union> below g p (e # es) = D \<union> subtree g ?c \<union> below g p es"
      using x(1) True by (auto simp: below_Cons)
    with Cons.IH [OF d(1) r cl un] v show ?thesis by simp
  qed
qed

lemma removeNode_Suc:
  "removeNode (Suc k) g node =
     (case position (m_nodes g) node of
        None \<Rightarrow> Some (Inr (LOG_WARNING ''Node was not found in the graph.'' g))
      | Some it \<Rightarrow>
          (case heap_nodes g node of
             None \<Rightarrow> Some (Inl DanglingPointer)
           | Some n \<Rightarrow>
               (case edgesOfType (heap_edges g) EDGE_MEMBER (node_edges n) of
                  Inl f \<Rightarrow> Some (Inl f)
                | Inr members \<Rightarrow>
                    (case forEach (visitMember k node) members g of
                       None \<Rightarrow> None
                     | Some (Inl f) \<Rightarrow> Some (Inl f)
                     | Some (Inr g2) \<Rightarrow>
                         (case heap_nodes g2 node of
                            None \<Rightarrow> Some (Inl DanglingPointer)
                          | Some n2 \<Rightarrow>
                              (case forEach (\<lambda>e g3. Some (removeEdgeInternal g3 e)) (node_edges n2) g2 of
                                 None \<Rightarrow> None
                               | Some (Inl f) \<Rightarrow> Some (Inl f)
                               | Some (Inr g4) \<Rightarrow> Some (removeNode_finish g4 node it)))))))"
  unfolding visitMember_def by (rule removeNode.simps(2))

lemma below_children:
  assumes "consistent g" and "p \<in> set (m_nodes g)" and "heap_nodes g p = Some n"
  shows "below g p (filter (is_member g) (node_edges n)) = (\<Union>c\<in>{c. (p, c) \<in> children g}. subtree g c)"
proof -
  from consistentD(3) [OF assms(1,2)] assms(3)
  have idx: "set (node_edges n) = {e \<in> set (m_edges g). touches g {p} e}" by simp
  show ?thesis
  proof (intro set_eqI iffI)
    fix y assume "y \<in> below g p (filter (is_member g) (node_edges n))"
    then obtain e x where e: "e \<in> set (node_edges n)" "is_member g e" "heap_edges g e = Some x"
      "p = edge_from x" "y \<in> subtree g (edge_to x)"
      by (auto simp: below_def split: option.splits if_splits)
    from e(2,3) have "edge_type x = EDGE_MEMBER" by (simp add: is_member_def)
    with e(1,3,4) idx have "(p, edge_to x) \<in> children g" by (auto intro: childrenI)
    with e(5) show "y \<in> (\<Union>c\<in>{c. (p, c) \<in> children g}. subtree g c)" by blast
  next
    fix y assume "y \<in> (\<Union>c\<in>{c. (p, c) \<in> children g}. subtree g c)"
    then obtain c where c: "(p, c) \<in> children g" "y \<in> subtree g c" by blast
    from c(1) obtain e x where e: "e \<in> set (m_edges g)" "heap_edges g e = Some x"
      "edge_type x = EDGE_MEMBER" "edge_from x = p" "edge_to x = c"
      by (rule childrenE)
    from e(2,4) have "touches g {p} e" by (simp add: touches_def)
    with e(1) idx have "e \<in> set (node_edges n)" by simp
    moreover from e(2,3) have "is_member g e" by (simp add: is_member_def)
    ultimately have "e \<in> set (filter (is_member g) (node_edges n))" by simp
    with e(2,4,5) c(2) show "y \<in> below g p (filter (is_member g) (node_edges n))"
      by (force simp: below_def)
  qed
qed


lemma position_purge_root:
  assumes "hierarchy g" and "position (m_nodes g) p = Some it"
    and "B \<subseteq> (\<Union>c\<in>{c. (p, c) \<in> children g}. subtree g c)"
  shows "position (m_nodes (purge B g)) p = Some it"
proof -
  have pB: "p \<notin> B" using assms(3) not_in_child_subtree [OF assms(1)] by blast
  have "\<And>y. y \<in> set (take it (m_nodes g)) \<Longrightarrow> y \<notin> B"
  proof
    fix y assume y: "y \<in> set (take it (m_nodes g))" and "y \<in> B"
    with assms(3) obtain c where c: "(p, c) \<in> children g" "y \<in> subtree g c" by blast
    from children_ordered [OF assms(1) c(1)] assms(2) obtain j where
      j: "position (m_nodes g) c = Some j" "it < j" by auto
    from subtree_ordered [OF assms(1) c(2) j(1)] obtain k where
      k: "position (m_nodes g) y = Some k" "j \<le> k" by blast
    from position_take [OF y] k(1) have "k < it" by simp
    with j(2) k(2) show False by simp
  qed
  then have "length (filter (\<lambda>p. p \<notin> B) (take it (m_nodes g))) = length (take it (m_nodes g))"
    by (rule filter_take_all)
  moreover from position_Some [OF assms(2)] have "it < length (m_nodes g)" by simp
  ultimately have "length (filter (\<lambda>p. p \<notin> B) (take it (m_nodes g))) = it" by simp
  with position_filter [OF assms(2), of "\<lambda>p. p \<notin> B"] pB show ?thesis
    by (simp add: purge_fields)
qed

lemma children_phase:
  assumes h: "hierarchy g" and p: "p \<in> set (m_nodes g)" and n: "heap_nodes g p = Some n"
    and IH: "\<And>g' c. hierarchy g' \<Longrightarrow> c \<in> set (m_nodes g') \<Longrightarrow> card (subtree g' c) \<le> j \<Longrightarrow>
               removeNode j g' c = Some (Inr (purge (subtree g' c) g'))"
    and fuel: "card (subtree g p) \<le> Suc j"
  shows "edgesOfType (heap_edges g) EDGE_MEMBER (node_edges n) = Inr (filter (is_member g) (node_edges n))"
    and "forEach (visitMember j p) (filter (is_member g) (node_edges n)) g
           = Some (Inr (purge (subtree g p - {p}) g))"
    and "subtree g p - {p} = (\<Union>c\<in>{c. (p, c) \<in> children g}. subtree g c)"
proof -
  note c = hierarchyD(1) [OF h]
  from consistentD(3) [OF c p] n
  have idx: "set (node_edges n) = {e \<in> set (m_edges g). touches g {p} e}" by simp
  have live: "\<forall>e\<in>set (node_edges n). heap_edges g e \<noteq> None"
    using idx consistentD(4) [OF c] by auto
  let ?members = "filter (is_member g) (node_edges n)"
  let ?B = "below g p ?members"
  show "edgesOfType (heap_edges g) EDGE_MEMBER (node_edges n) = Inr ?members"
    by (rule edgesOfType_live [OF live])
  have "forEach (visitMember j p) ?members (purge {} g) = Some (Inr (purge ({} \<union> ?B) g))"
  proof (rule children_loop [OF h IH fuel])
    show "distinct ?members" by (rule hierarchyD(2) [OF h p n])
    show "\<forall>e\<in>set ?members. e \<in> set (m_edges g) \<and> is_member g e \<and> touches g {p} e"
      using idx by simp
    show "closed g {}" by (rule closed_empty)
    show "\<forall>e\<in>set ?members. \<not> touches g {} e" by (simp add: touches_def split: option.splits)
  qed
  then have loop: "forEach (visitMember j p) ?members g = Some (Inr (purge ?B g))"
    by (simp add: purge_empty)
  have B: "?B = (\<Union>c\<in>{c. (p, c) \<in> children g}. subtree g c)"
    by (rule below_children [OF c p n])
  have pB: "p \<notin> ?B" unfolding B using not_in_child_subtree [OF h] by blast
  have "subtree g p = insert p ?B"
    by (subst subtree_unfold) (simp add: B)
  with pB have sub: "subtree g p - {p} = ?B" by simp
  with loop show "forEach (visitMember j p) ?members g = Some (Inr (purge (subtree g p - {p}) g))"
    by simp
  from sub B show "subtree g p - {p} = (\<Union>c\<in>{c. (p, c) \<in> children g}. subtree g c)" by simp
qed

text \<open>
  The call on a node of a hierarchy returns, and the state it leaves is the graph without
  the subtree of the node and without the edges incident to it.
\<close>

lemma removeNode_purge:
  "hierarchy g \<Longrightarrow> p \<in> set (m_nodes g) \<Longrightarrow> card (subtree g p) \<le> k \<Longrightarrow>
     removeNode k g p = Some (Inr (purge (subtree g p) g))"
proof (induction k arbitrary: g p)
  case 0
  from finite_subtree [OF hierarchyD(1) [OF "0.prems"(1)] "0.prems"(2)] "0.prems"(3)
  have "subtree g p = {}" by simp
  with subtree_self [of p g] show ?case by simp
next
  case (Suc j)
  note h = Suc.prems(1) and c = hierarchyD(1) [OF Suc.prems(1)]
  from position_in [OF Suc.prems(2)] obtain it where it: "position (m_nodes g) p = Some it" by blast
  from consistentD(3) [OF c Suc.prems(2)] obtain n where n: "heap_nodes g p = Some n" by blast
  let ?B = "subtree g p - {p}"
  note ph = children_phase [OF h Suc.prems(2) n Suc.IH Suc.prems(3)]
  have c2: "consistent (purge ?B g)" by (rule consistent_purge [OF c])
  from Suc.prems(2) have p2: "p \<in> set (m_nodes (purge ?B g))" by (simp add: purge_fields)
  from consistentD(3) [OF c2 p2] obtain n2 where n2: "heap_nodes (purge ?B g) p = Some n2" by blast
  have it2: "position (m_nodes (purge ?B g)) p = Some it"
    by (rule position_purge_root [OF h it]) (simp add: ph(3))
  have edges: "forEach (\<lambda>e g3. Some (removeEdgeInternal g3 e)) (node_edges n2) (purge ?B g)
      = Some (Inr (unlink (set (node_edges n2)) (purge ?B g)))"
    by (rule removeEdges_loop [OF c2])
  have "insert p (subtree g p) = subtree g p" using subtree_self by blast
  then have "?B \<union> {p} = subtree g p" by blast
  moreover have "removeNode_finish (unlink (set (node_edges n2)) (purge ?B g)) p it
      = Inr (purge {p} (purge ?B g))"
    by (rule removeNode_tail [OF c2 n2 it2])
  ultimately have fin: "removeNode_finish (unlink (set (node_edges n2)) (purge ?B g)) p it
      = Inr (purge (subtree g p) g)"
    by (simp add: purge_purge)
  show ?case
    by (simp only: removeNode_Suc it n ph(1,2) n2 edges fin option.case sum.case)
qed

lemma length_purge:
  assumes "distinct xs" and "finite S" and "S \<subseteq> set xs"
  shows "length xs = length (filter (\<lambda>p. p \<notin> S) xs) + card S"
proof -
  have "set (filter (\<lambda>p. p \<in> S) xs) = S" using assms(3) by auto
  moreover have "distinct (filter (\<lambda>p. p \<in> S) xs)" using assms(1) by simp
  ultimately have "length (filter (\<lambda>p. p \<in> S) xs) = card S"
    using distinct_card by fastforce
  with sum_length_filter_compl [of "\<lambda>p. p \<in> S" xs] show ?thesis by simp
qed

text \<open>
  C1, for a hierarchy. With \<open>N\<close> the number of descendants of the node, the nodes of its
  subtree without itself: \<^verbatim>\<open>removeNode\<close> returns; the nodes left are those outside the
  subtree, in their order, \<open>N + 1\<close> fewer than before; every node of the subtree is
  destroyed; every edge left is alive and joins nodes outside the subtree; nothing is
  logged, and the graph is a hierarchy again. The children go first: the iteration over
  the membership edges ends in the graph without the proper descendants, where the node
  itself is still present.
\<close>

theorem removeNode_removes_subtree:
  assumes "hierarchy g" and "node \<in> set (m_nodes g)" and "card (subtree g node) \<le> k"
  shows "\<exists>g' j n. removeNode k g node = Some (Inr g')
     \<and> m_nodes g' = filter (\<lambda>p. p \<notin> subtree g node) (m_nodes g)
     \<and> length (m_nodes g) = length (m_nodes g') + card (subtree g node - {node}) + 1
     \<and> (\<forall>p\<in>subtree g node. p \<in> set (m_nodes g) \<and> heap_nodes g' p = None)
     \<and> (\<forall>e\<in>set (m_edges g'). \<exists>x. heap_edges g' e = Some x
            \<and> edge_from x \<notin> subtree g node \<and> edge_to x \<notin> subtree g node)
     \<and> logged g' = logged g \<and> hierarchy g'
     \<and> k = Suc j \<and> heap_nodes g node = Some n
     \<and> forEach (visitMember j node) (filter (is_member g) (node_edges n)) g
           = Some (Inr (purge (subtree g node - {node}) g))
     \<and> node \<in> set (m_nodes (purge (subtree g node - {node}) g))"
proof -
  note c = hierarchyD(1) [OF assms(1)]
  let ?S = "subtree g node"
  let ?g' = "purge ?S g"
  have fin: "finite ?S" by (rule finite_subtree [OF c assms(2)])
  have sub: "?S \<subseteq> set (m_nodes g)" by (rule subtree_in_nodes [OF c assms(2)])
  have self: "node \<in> ?S" by (rule subtree_self)
  have r: "removeNode k g node = Some (Inr ?g')"
    by (rule removeNode_purge [OF assms])
  from fin self assms(3) obtain j where j: "k = Suc j"
    by (cases k) auto
  from consistentD(3) [OF c assms(2)] obtain n where n: "heap_nodes g node = Some n" by blast
  have ph: "forEach (visitMember j node) (filter (is_member g) (node_edges n)) g
           = Some (Inr (purge (?S - {node}) g))"
    by (rule children_phase(2) [OF assms(1,2) n removeNode_purge assms(3) [unfolded j]])
  have "card (?S - {node}) + 1 = card ?S"
    using fin self card_Suc_Diff1 [of ?S node] by simp
  with length_purge [OF consistentD(1) [OF c] fin sub]
  have len: "length (m_nodes g) = length (m_nodes ?g') + card (?S - {node}) + 1"
    by (simp add: purge_fields)
  have gone: "\<forall>p\<in>?S. p \<in> set (m_nodes g) \<and> heap_nodes ?g' p = None"
    using sub by (auto simp: purge_fields)
  have edges: "\<forall>e\<in>set (m_edges ?g'). \<exists>x. heap_edges ?g' e = Some x
            \<and> edge_from x \<notin> ?S \<and> edge_to x \<notin> ?S"
  proof
    fix e assume "e \<in> set (m_edges ?g')"
    then have e: "e \<in> set (m_edges g)" "\<not> touches g ?S e" by (simp_all add: purge_fields)
    from consistentD(4) [OF c e(1)] obtain x where x: "heap_edges g e = Some x" by blast
    with e(2) have "edge_from x \<notin> ?S" "edge_to x \<notin> ?S" by (simp_all add: touches_def)
    with e x show "\<exists>x. heap_edges ?g' e = Some x \<and> edge_from x \<notin> ?S \<and> edge_to x \<notin> ?S"
      by (simp add: purge_fields)
  qed
  have still: "node \<in> set (m_nodes (purge (?S - {node}) g))"
    using assms(2) by (simp add: purge_fields)
  from r len gone edges hierarchy_purge [OF assms(1), of ?S] j n ph still
  show ?thesis
    by (intro exI [of _ ?g'] exI [of _ j] exI [of _ n]) (simp add: purge_fields)
qed

lemma graph_loop_built:
  "\<exists>g1. createNodeHierarchy Graph_init NODE_UNDEFINED ''a'' = Inr (g1, Some 0)
     \<and> createEdge g1 EDGE_MEMBER 0 0 = Inr (graph_loop, 1)"
  by (simp add: eval_defs graph_loop_def)

lemma graph_ba_member_built:
  "\<exists>g1 g2. createNodeHierarchy Graph_init NODE_UNDEFINED ''b'' = Inr (g1, Some 0)
     \<and> createNodeHierarchy g1 NODE_UNDEFINED ''a'' = Inr (g2, Some 1)
     \<and> createEdge g2 EDGE_MEMBER 1 0 = Inr (graph_ba_member, 2)"
  by (simp add: eval_defs graph_ba_member_def)

text \<open>
  C1 as stated, for every node of every graph, fails: when a node is its own child,
  \<^verbatim>\<open>removeNode\<close> finds the node still in \<^verbatim>\<open>m_nodes\<close> on every nested call and never
  returns, whatever depth of calls is allowed.
\<close>

theorem removeNode_member_cycle_never_returns:
  "\<forall>k. removeNode k graph_loop 0 = None"
proof
  fix k show "removeNode k graph_loop 0 = None"
  proof (induction k)
    case 0
    show ?case by simp
  next
    case (Suc k)
    have "position (m_nodes graph_loop) 0 = Some 0"
      and "heap_nodes graph_loop 0 = Some \<lparr> node_id = 0, node_type = NODE_UNDEFINED, node_name = ''a'',
               node_edges = [1, 1], node_signature = None \<rparr>"
      and "edgesOfType (heap_edges graph_loop) EDGE_MEMBER [1, 1] = Inr [1, 1]"
      and "heap_edges graph_loop 1 = Some \<lparr> edge_id = 1, edge_type = EDGE_MEMBER, edge_from = 0, edge_to = 0 \<rparr>"
      by (simp_all add: graph_loop_def)
    with Suc show ?case by (simp add: removeNode_Suc visitMember_def)
  qed
qed

text \<open>
  When a child stands before its parent in \<^verbatim>\<open>m_nodes\<close>, erasing the child invalidates
  the iterator that \<^verbatim>\<open>removeNode\<close> holds for the parent.
\<close>

lemma removeNode_child_stored_first:
  "removeNode 2 graph_ba_member 1 = Some (Inl InvalidIterator)"
  by (simp add: graph_ba_member_def eval_defs edgesOfType.simps)

text \<open>
  When a node has two parents, one of them a descendant of the other, the ancestor's
  snapshot holds a membership edge that the removal of the first child has destroyed.
\<close>

lemma removeNode_two_parents:
  "\<exists>g1 g2 g3. createNodeHierarchy Graph_init NODE_UNDEFINED ''P::A'' = Inr (g1, Some 1)
     \<and> createNodeHierarchy g1 NODE_UNDEFINED ''P::B'' = Inr (g2, Some 3)
     \<and> createEdge g2 EDGE_MEMBER 1 3 = Inr (g3, 5)
     \<and> removeNode 3 g3 0 = Some (Inl DanglingPointer)"
  by (simp add: eval_defs)

lemma hierarchy_graph_abc: "hierarchy (graph_abc type)"
  by (simp add: hierarchy_def consistent_def touches_def is_member_def graph_abc_def) auto

lemma children_graph_abc: "children (graph_abc type) = {(0, 1), (1, 3)}"
  by (auto simp: children_def graph_abc_def split: if_splits)

lemma subtree_graph_abc: "subtree (graph_abc type) 1 = {1, 3}"
proof -
  have "subtree (graph_abc type) 3 = {3}"
    by (subst subtree_unfold) (simp add: children_graph_abc)
  then show ?thesis
    by (subst subtree_unfold) (auto simp add: children_graph_abc)
qed

lemma removeNode_graph_abc:
  "\<exists>g'. removeNode 2 (graph_abc NODE_UNDEFINED) 1 = Some (Inr g') \<and> m_nodes g' = [0] \<and> m_edges g' = []
     \<and> logged g' = []"
  by (simp add: graph_abc_def eval_defs)


text \<open>
  In the graph of "a::b::c", removing "a::b" removes it and its one descendant "a::b::c"
  with both edges; "a" is left.
\<close>

theorem removeNode_removes_subtree_witness:
  "hierarchy (graph_abc NODE_UNDEFINED) \<and> 1 \<in> set (m_nodes (graph_abc NODE_UNDEFINED))
   \<and> card (subtree (graph_abc NODE_UNDEFINED) 1) \<le> 2
   \<and> subtree (graph_abc NODE_UNDEFINED) 1 - {1} = {3}
   \<and> (\<exists>g'. removeNode 2 (graph_abc NODE_UNDEFINED) 1 = Some (Inr g') \<and> m_nodes g' = [0]
         \<and> m_edges g' = [] \<and> heap_nodes g' 1 = None \<and> heap_nodes g' 3 = None \<and> hierarchy g')"
proof -
  let ?g = "graph_abc NODE_UNDEFINED"
  have h: "hierarchy ?g" by (rule hierarchy_graph_abc)
  have m: "1 \<in> set (m_nodes ?g)" by (simp add: graph_abc_def)
  have s: "subtree ?g 1 = {1, 3}" by (rule subtree_graph_abc)
  then have c: "card (subtree ?g 1) \<le> 2" by simp
  from removeNode_graph_abc obtain g' where
    e: "removeNode 2 ?g 1 = Some (Inr g')" "m_nodes g' = [0]" "m_edges g' = []"
    by (elim exE conjE)
  from removeNode_removes_subtree [OF h m c] e(1) s
  have "heap_nodes g' 1 = None \<and> heap_nodes g' 3 = None \<and> hierarchy g'"
    by (elim exE conjE) simp
  with h m c s e show ?thesis by (intro conjI exI [of _ g']) auto
qed

end
